theory Spec2Isabelle
  imports Main
begin

section \<open>JavaScript string operations used by the generated naming validator\<close>

text \<open>
  Strings are byte lists (UTF-8). Every pattern the script searches for, splits on or puts
  in a character class is ASCII, and an ASCII byte never occurs inside a multi-byte UTF-8
  sequence, so the byte-level operations below agree with the script's code-unit-level
  ones on every path string.
\<close>

definition isLower :: "char \<Rightarrow> bool" where
  "isLower c \<longleftrightarrow> (97::nat) \<le> of_char c \<and> of_char c \<le> (122::nat)"

definition isUpper :: "char \<Rightarrow> bool" where
  "isUpper c \<longleftrightarrow> (65::nat) \<le> of_char c \<and> of_char c \<le> (90::nat)"

definition isDigit :: "char \<Rightarrow> bool" where
  "isDigit c \<longleftrightarrow> (48::nat) \<le> of_char c \<and> of_char c \<le> (57::nat)"

text \<open>\<^verbatim>\<open>const kebabCase = /^[a-z0-9-]+$/;\<close> (no flags: \<^verbatim>\<open>$\<close> is the end of the input).\<close>

definition kebabCase :: "string \<Rightarrow> bool" where
  "kebabCase s \<longleftrightarrow>
     s \<noteq> [] \<and> list_all (\<lambda>c. isLower c \<or> isDigit c \<or> c = CHR ''-'') s"

text \<open>\<^verbatim>\<open>const pascalCase = /^[A-Z][a-zA-Z0-9]*$/;\<close>\<close>

definition pascalCase :: "string \<Rightarrow> bool" where
  "pascalCase s \<longleftrightarrow>
     (case s of
        [] \<Rightarrow> False
      | c # cs \<Rightarrow> isUpper c \<and> list_all (\<lambda>d. isLower d \<or> isUpper d \<or> isDigit d) cs)"

text \<open>\<^verbatim>\<open>s.startsWith(t)\<close> and \<^verbatim>\<open>s.endsWith(t)\<close>.\<close>

definition startsWith :: "string \<Rightarrow> string \<Rightarrow> bool" where
  "startsWith s t \<longleftrightarrow> take (length t) s = t"

definition endsWith :: "string \<Rightarrow> string \<Rightarrow> bool" where
  "endsWith s t \<longleftrightarrow> length t \<le> length s \<and> drop (length s - length t) s = t"

text \<open>\<^verbatim>\<open>s.includes(t)\<close> on strings: \<open>t\<close> occurs somewhere in \<open>s\<close>.\<close>

fun str_includes :: "string \<Rightarrow> string \<Rightarrow> bool" where
  "str_includes [] t = (t = [])"
| "str_includes (c # cs) t = (startsWith (c # cs) t \<or> str_includes cs t)"

text \<open>
  \<^verbatim>\<open>s.split(sep)\<close> for a one-character separator: the pieces between the separators,
  \<^verbatim>\<open>['']\<close> for the empty string. The last branch of the inner case is there for
  totality only (see \<open>str_split_not_Nil\<close>).
\<close>

fun str_split :: "char \<Rightarrow> string \<Rightarrow> string list" where
  "str_split sep [] = [[]]"
| "str_split sep (c # cs) =
     (if c = sep then [] # str_split sep cs
      else (case str_split sep cs of
              p # ps \<Rightarrow> (c # p) # ps
            | [] \<Rightarrow> [[c]]))"

text \<open>\<^verbatim>\<open>xs.join(s)\<close>.\<close>

fun join :: "string \<Rightarrow> string list \<Rightarrow> string" where
  "join s [] = []"
| "join s [x] = x"
| "join s (x # y # ys) = x @ s @ join s (y # ys)"

section \<open>The generated script \<^verbatim>\<open>.husky/validate-naming.js\<close>\<close>

text \<open>
  What the script prints. The texts hold non-ASCII symbols and fixed examples; a message
  is identified by its kind and by the path it quotes. \<open>ErrComponent\<close>, \<open>ErrFile\<close> and
  \<open>ErrFolder\<close> stand for the two \<^verbatim>\<open>console.error\<close> lines of each check, \<open>ErrSummary\<close> for
  the six lines before \<^verbatim>\<open>process.exit(1)\<close>, \<open>NamingValid\<close> for the final
  \<^verbatim>\<open>console.log\<close>.
\<close>

datatype message =
    ErrComponent string
  | ErrFile string
  | ErrFolder string
  | ErrSummary
  | NamingValid

text \<open>\<^verbatim>\<open>const isComponentFile = (filename) => ...\<close>\<close>

definition isComponentFile :: "string \<Rightarrow> bool" where
  "isComponentFile filename \<longleftrightarrow> endsWith filename ''.tsx'' \<or> endsWith filename ''.jsx''"

definition specialFiles :: "string list" where
  "specialFiles =
     [''route'', ''layout'', ''page'', ''loading'', ''error'', ''not-found'', ''default'',
      ''template'']"

text \<open>
  \<^verbatim>\<open>filename.split('.')[0]\<close>; element 0 of an empty array would be \<^verbatim>\<open>undefined\<close>, which
  \<open>None\<close> stands for.
\<close>

definition nameWithoutExt :: "string \<Rightarrow> string option" where
  "nameWithoutExt filename =
     (case str_split CHR ''.'' filename of [] \<Rightarrow> None | x # _ \<Rightarrow> Some x)"

text \<open>
  \<^verbatim>\<open>validateFileName(filename, filePath, isComponent)\<close>: the returned boolean and the
  messages written to standard error. With \<^verbatim>\<open>undefined\<close> for the name,
  \<^verbatim>\<open>includes\<close> is false and \<^verbatim>\<open>test\<close> runs on the string \<^verbatim>\<open>"undefined"\<close>.
\<close>

definition validateFileName :: "string \<Rightarrow> string \<Rightarrow> bool \<Rightarrow> bool \<times> message list" where
  "validateFileName filename filePath isComponent =
     (let name = nameWithoutExt filename;
          special = (case name of None \<Rightarrow> False | Some n \<Rightarrow> n \<in> set specialFiles);
          tested = (case name of None \<Rightarrow> ''undefined'' | Some n \<Rightarrow> n)
      in if special then (True, [])
         else if isComponent then
           (if \<not> pascalCase tested then (False, [ErrComponent filePath]) else (True, []))
         else
           (if \<not> kebabCase tested then (False, [ErrFile filePath]) else (True, [])))"

definition specialFolders :: "string list" where
  "specialFolders =
     [''api'', ''ui'', ''app'', ''lib'', ''components'', ''utils'', ''actions'', ''hooks'',
      ''validations'', ''store'', ''types'', ''forms'', ''layouts'']"

text \<open>\<^verbatim>\<open>validateFolderName(folderName, folderPath)\<close>\<close>

definition validateFolderName :: "string \<Rightarrow> string \<Rightarrow> bool \<times> message list" where
  "validateFolderName folderName folderPath =
     (if startsWith folderName ''_'' \<or> startsWith folderName ''['' \<or> startsWith folderName ''(''
      then (True, [])
      else if folderName \<in> set specialFolders then (True, [])
      else if \<not> kebabCase folderName then (False, [ErrFolder folderPath])
      else (True, []))"

text \<open>
  Node's \<^verbatim>\<open>path\<close> module is not part of the repository. The script uses \<^verbatim>\<open>path.sep\<close>
  (\<^verbatim>\<open>/\<close> on POSIX, a backslash on Windows) and \<^verbatim>\<open>path.relative(from, to)\<close>; both are
  parameters of the model.
\<close>

record node_path =
  sep :: char
  relative :: "string \<Rightarrow> string \<Rightarrow> string"

text \<open>
  The process the script runs in: its arguments (\<^verbatim>\<open>process.argv\<close>, the first two being
  the interpreter and the script), the directory it was started in, and what exists on
  disk, which \<^verbatim>\<open>require('fs')\<close> gives the script access to. The disk is taken as it
  is when the run starts.
\<close>

datatype entry = Directory | File string

record process =
  argv :: "string list"
  cwd :: string
  disk :: "string \<rightharpoonup> entry"

datatype js_error = TypeError | ENOENT

text \<open>
  \<^verbatim>\<open>process.cwd()\<close>: the working directory, or the exception Node throws
  (\<^verbatim>\<open>ENOENT: no such file or directory, uv_cwd\<close>) when that directory no longer exists.
\<close>

definition process_cwd :: "process \<Rightarrow> js_error + string" where
  "process_cwd p = (if disk p (cwd p) = Some Directory then Inr (cwd p) else Inl ENOENT)"

text \<open>The script's mutable state: \<^verbatim>\<open>hasError\<close> and what was written to standard error.\<close>

record vstate =
  hasError :: bool
  stderr :: "message list"

text \<open>
  The body of \<^verbatim>\<open>for (let i = 1; i < parts.length - 1; i++)\<close> for one \<open>i\<close>.
  \<^verbatim>\<open>parts.slice(0, i + 1)\<close> is \<open>take (i + 1) parts\<close>.
\<close>

definition folderStep :: "string list \<Rightarrow> nat \<Rightarrow> vstate \<Rightarrow> vstate" where
  "folderStep parts i st =
     (let folderName = parts ! i;
          folderPath = join ''/'' (take (i + 1) parts);
          (ok, msgs) = validateFolderName folderName folderPath
      in \<lparr>hasError = (if \<not> ok then True else hasError st), stderr = stderr st @ msgs\<rparr>)"

text \<open>
  The callback of \<^verbatim>\<open>stagedFiles.forEach\<close>. It starts with
  \<^verbatim>\<open>path.relative(process.cwd(), file)\<close>, and nothing in the script catches what
  \<^verbatim>\<open>process.cwd()\<close> throws. \<^verbatim>\<open>parts[parts.length - 1]\<close> of an empty array is
  \<^verbatim>\<open>undefined\<close>, and \<^verbatim>\<open>undefined.endsWith\<close> throws a TypeError. The loop bound
  \<^verbatim>\<open>parts.length - 1\<close> is \<open>-1\<close> for an empty array and the loop does not run; the
  truncating subtraction on \<open>nat\<close> gives the same empty range.
\<close>

definition checkFile :: "node_path \<Rightarrow> process \<Rightarrow> string \<Rightarrow> vstate \<Rightarrow> js_error + vstate" where
  "checkFile np p file st =
     (case process_cwd p of
        Inl e \<Rightarrow> Inl e
      | Inr wd \<Rightarrow>
         (let relativePath = relative np wd file
          in if str_includes relativePath ''node_modules'' \<or>
                str_includes relativePath ''.next'' \<or>
                str_includes relativePath ''dist'' \<or> str_includes relativePath ''.git''
             then Inr st
             else if \<not> startsWith relativePath ''src/'' then Inr st
             else
               (let parts = str_split (sep np) relativePath
                in if parts = [] then Inl TypeError
                   else
                     (let filename = last parts;
                          isComponent = isComponentFile filename;
                          (ok, msgs) = validateFileName filename relativePath isComponent;
                          st1 = \<lparr>hasError = (if \<not> ok then True else hasError st),
                                 stderr = stderr st @ msgs\<rparr>
                      in Inr (fold (folderStep parts) [1 ..< length parts - 1] st1)))))"

text \<open>
  \<^verbatim>\<open>stagedFiles.forEach(...)\<close>: an exception thrown by the callback ends the loop; the
  state is what the files before it left.
\<close>

fun forEach ::
  "node_path \<Rightarrow> process \<Rightarrow> string list \<Rightarrow> vstate \<Rightarrow> js_error option \<times> vstate" where
  "forEach np p [] st = (None, st)"
| "forEach np p (file # files) st =
     (case checkFile np p file st of
        Inl e \<Rightarrow> (Some e, st)
      | Inr st' \<Rightarrow> forEach np p files st')"

datatype status = Exit1 | Terminated | Thrown js_error

text \<open>
  The exit code of the process: that of \<^verbatim>\<open>process.exit(1)\<close>, 0 at the normal end, and 1
  when Node ends on an uncaught exception.
\<close>

fun exit_code :: "status \<Rightarrow> nat" where
  "exit_code Exit1 = 1"
| "exit_code Terminated = 0"
| "exit_code (Thrown e) = 1"

record result =
  status :: status
  err_lines :: "message list"
  out_lines :: "message list"

text \<open>
  A run of the script: \<^verbatim>\<open>stagedFiles = process.argv.slice(2)\<close>, \<^verbatim>\<open>hasError = false\<close>,
  the loop, then either the summary and \<^verbatim>\<open>process.exit(1)\<close> or the success line. An
  exception of the loop is caught nowhere and ends the run; \<open>err_lines\<close> then holds the
  script's own messages up to that point (Node's report of the exception aside).
\<close>

definition validate_naming :: "node_path \<Rightarrow> process \<Rightarrow> result" where
  "validate_naming np p =
     (let stagedFiles = drop 2 (argv p)
      in case forEach np p stagedFiles \<lparr>hasError = False, stderr = []\<rparr> of
           (Some e, st) \<Rightarrow> \<lparr>status = Thrown e, err_lines = stderr st, out_lines = []\<rparr>
         | (None, st) \<Rightarrow>
             if hasError st
             then \<lparr>status = Exit1, err_lines = stderr st @ [ErrSummary], out_lines = []\<rparr>
             else \<lparr>status = Terminated, err_lines = stderr st, out_lines = [NamingValid]\<rparr>)"

text \<open>
  The POSIX \<^verbatim>\<open>path\<close> module at the paths \<^verbatim>\<open>git diff --cached --name-only\<close> prints: they
  are normalised and relative to the working directory, where \<^verbatim>\<open>path.relative\<close> returns
  its second argument unchanged.
\<close>

definition posix :: node_path where
  "posix = \<lparr>sep = CHR ''/'', relative = (\<lambda>from to. to)\<rparr>"

text \<open>
  A staged file the loop does not skip: its relative path holds none of the four skipped
  words and starts with \<^verbatim>\<open>src/\<close>.
\<close>

definition examined :: "node_path \<Rightarrow> string \<Rightarrow> string \<Rightarrow> bool" where
  "examined np wd file \<longleftrightarrow>
     (let relativePath = relative np wd file
      in \<not> (str_includes relativePath ''node_modules'' \<or> str_includes relativePath ''.next'' \<or>
             str_includes relativePath ''dist'' \<or> str_includes relativePath ''.git'') \<and>
         startsWith relativePath ''src/'')"

text \<open>
  An examined file whose name, or one of whose folder segments (those at the indices the
  loop visits), fails its check.
\<close>

definition violates :: "node_path \<Rightarrow> string \<Rightarrow> string \<Rightarrow> bool" where
  "violates np wd file \<longleftrightarrow>
     examined np wd file \<and>
     (let relativePath = relative np wd file;
          parts = str_split (sep np) relativePath;
          filename = last parts
      in \<not> fst (validateFileName filename relativePath (isComponentFile filename)) \<or>
         list_ex (\<lambda>i. \<not> fst (validateFolderName (parts ! i) (join ''/'' (take (i + 1) parts))))
           [1 ..< length parts - 1])"

section \<open>The \<^verbatim>\<open>init\<close> command\<close>

subsection \<open>The command line\<close>

text \<open>
  The declarations made on the \<^verbatim>\<open>commander\<close> program: each \<^verbatim>\<open>.command(name)\<close> with its
  \<^verbatim>\<open>.argument(...)\<close> declarations, as written in the source.
\<close>

record command =
  cmd_name :: string
  cmd_arguments :: "string list"

definition program :: "command list" where
  "program = [\<lparr>cmd_name = ''init'', cmd_arguments = [''[project-name]'']\<rparr>]"

text \<open>
  \<^verbatim>\<open>commander\<close> reads an argument declared in square brackets as optional and one in
  angle brackets as required.
\<close>

definition optional_argument :: "string \<Rightarrow> bool" where
  "optional_argument decl \<longleftrightarrow> startsWith decl ''['' \<and> endsWith decl '']''"

text \<open>The \<^verbatim>\<open>validate\<close> function of the prompt: \<^verbatim>\<open>true\<close>, or the message to show.\<close>

datatype validation = Accepted | Rejected string

definition validate :: "string \<Rightarrow> validation" where
  "validate input =
     (if input = [] then Rejected ''Nama project harus diisi!''
      else if \<not> kebabCase input
        then Rejected ''Nama project harus kebab-case (lowercase dengan dash)!''
      else Accepted)"

text \<open>
  \<^verbatim>\<open>inquirer.prompt\<close> with an \<^verbatim>\<open>input\<close> question asks again until \<^verbatim>\<open>validate\<close> returns
  \<^verbatim>\<open>true\<close>: of the lines the user types, the answer is the first accepted one. \<open>None\<close>
  means that no accepted line has been typed.
\<close>

definition prompt :: "string list \<Rightarrow> string option" where
  "prompt lines = find (\<lambda>input. validate input = Accepted) lines"

subsection \<open>The environment and what a run does to it\<close>

text \<open>
  The operations on the outside world, in the order of the \<^verbatim>\<open>fs\<close>, \<^verbatim>\<open>process\<close> and
  \<^verbatim>\<open>child_process\<close> calls. Paths are the constant paths of the source, relative to
  \<^verbatim>\<open>targetPath\<close>. The contents written are fixed templates and are left out.
\<close>

datatype action =
    Exec string
  | Chdir
  | EnsureDir string
  | WriteFile string
  | Chmod string
  | ReadJSON string
  | WriteJSON string

datatype exn = ActionFailed action | FolderNotFound string

text \<open>
  What is printed: the spinner's lines with their texts, and the \<^verbatim>\<open>console\<close> blocks
  (whose texts hold non-ASCII symbols) by kind: the red line when the folder exists, the
  blue line at the start, the yellow line of \<^verbatim>\<open>setupShadcn\<close>, the final block with the next
  steps, and the error block of the outer \<^verbatim>\<open>catch\<close> (the error's message and the tips).
\<close>

datatype printed =
    SpinnerStart string
  | SpinnerSucceed string
  | SpinnerFail string
  | SpinnerWarn string
  | FolderExists string
  | Scaffolding
  | ShadcnManual
  | ProjectCreated string
  | ErrorReport exn

datatype event = Did action | Failed action | Out printed

text \<open>
  The world a run meets: the positional argument, the lines typed at the prompt, the answers
  of the two \<^verbatim>\<open>fs.existsSync(targetPath)\<close> calls, and for each operation whether it throws,
  which may depend on everything that happened before it.
\<close>

record world =
  projectName :: "string option"
  typed :: "string list"
  exists_before :: bool
  exists_after :: bool
  fails :: "event list \<Rightarrow> action \<Rightarrow> bool"

text \<open>
  A piece of the program: given the events so far, the exception it throws, if any, and
  the events it adds.
\<close>

type_synonym step = "event list \<Rightarrow> exn option \<times> event list"

definition act :: "world \<Rightarrow> action \<Rightarrow> step" where
  "act w a h = (if fails w h a then (Some (ActionFailed a), [Failed a]) else (None, [Did a]))"

definition say :: "printed \<Rightarrow> step" where
  "say x h = (None, [Out x])"

definition throw :: "exn \<Rightarrow> step" where
  "throw e h = (Some e, [])"

definition andThen :: "step \<Rightarrow> step \<Rightarrow> step" where
  "andThen p q h =
     (case p h of
        (Some e, es) \<Rightarrow> (Some e, es)
      | (None, es) \<Rightarrow> (case q (h @ es) of (r, es') \<Rightarrow> (r, es @ es')))"

primrec seq :: "step list \<Rightarrow> step" where
  "seq [] = (\<lambda>h. (None, []))"
| "seq (p # ps) = andThen p (seq ps)"

definition tryCatch :: "step \<Rightarrow> (exn \<Rightarrow> step) \<Rightarrow> step" where
  "tryCatch p handler h =
     (case p h of
        (None, es) \<Rightarrow> (None, es)
      | (Some e, es) \<Rightarrow> (case handler e (h @ es) of (r, es') \<Rightarrow> (r, es @ es')))"

text \<open>Straight-line code: the operations in order, up to the first that throws.\<close>

definition perform :: "world \<Rightarrow> action list \<Rightarrow> step" where
  "perform w as = seq (map (act w) as)"

subsection \<open>The functions of \<^verbatim>\<open>cli.ts\<close>\<close>

definition folders :: "string list" where
  "folders =
     [''src/app/api/auth/[...nextauth]'', ''src/components/ui'', ''src/components/forms'',
      ''src/components/layouts'', ''src/lib/actions'', ''src/lib/api'', ''src/lib/utils'',
      ''src/lib/validations'', ''src/lib/hooks'', ''src/store'', ''src/types'', ''prisma'',
      ''public/images'', ''public/icons'', ''__tests__/unit'', ''__tests__/e2e'']"

definition createProjectStructure :: "world \<Rightarrow> step" where
  "createProjectStructure w =
     perform w
       (map EnsureDir folders @
        [WriteFile ''src/components/forms/.gitkeep'',
         WriteFile ''src/components/layouts/.gitkeep'',
         EnsureDir ''src/utils'',
         WriteFile ''src/utils/check-db.ts''])"

definition createConfigFiles :: "world \<Rightarrow> step" where
  "createConfigFiles w =
     perform w
       [WriteFile ''vitest.config.ts'',
        WriteFile ''playwright.config.ts'',
        WriteFile ''.prettierrc'',
        WriteFile ''__tests__/setup.ts'',
        EnsureDir ''src/store'',
        WriteFile ''src/store/user-store.ts'',
        EnsureDir ''src/lib/utils'',
        WriteFile ''src/lib/utils/cn.ts'',
        EnsureDir ''src/lib/validations'',
        WriteFile ''src/lib/validations/auth.ts'',
        EnsureDir ''src/app/api/auth/[...nextauth]'',
        WriteFile ''src/app/api/auth/[...nextauth]/route.ts'',
        ReadJSON ''package.json'',
        WriteJSON ''package.json'']"

definition shadcnAdd :: string where
  "shadcnAdd = ''pnpm dlx shadcn@latest add button input label --yes''"

definition setupShadcn :: "world \<Rightarrow> step" where
  "setupShadcn w =
     seq [act w (WriteJSON ''components.json''),
          tryCatch (act w (Exec shadcnAdd)) (\<lambda>error. say ShadcnManual)]"

definition setupHusky :: "world \<Rightarrow> step" where
  "setupHusky w =
     perform w
       [WriteFile ''.husky/pre-commit'',
        Chmod ''.husky/pre-commit'',
        ReadJSON ''package.json'',
        WriteJSON ''package.json'',
        WriteFile ''.husky/validate-naming.js'',
        WriteFile ''.husky/pre-commit'']"

definition setupPrisma :: "world \<Rightarrow> step" where
  "setupPrisma w =
     perform w
       [WriteFile ''prisma/schema.prisma'',
        WriteFile ''src/lib/db.ts'',
        WriteFile ''.env.example'']"

definition createNextApp :: "string \<Rightarrow> string" where
  \<open>createNextApp name =
     ''pnpm create next-app@latest '' @ name @
     '' --typescript --tailwind --eslint --app --src-dir --import-alias "@/*" --turbopack --no-git''\<close>

definition authDependencies :: "string list" where
  "authDependencies =
     [''next-auth@^4.24.5'', ''bcryptjs'', ''jsonwebtoken'', ''clsx'', ''tailwind-merge'']"

definition formDependencies :: "string list" where
  "formDependencies = [''react-hook-form'', ''zod'', ''@hookform/resolvers'']"

definition stateDependencies :: "string list" where
  "stateDependencies = [''zustand'']"

definition databaseDependencies :: "string list" where
  "databaseDependencies = [''@prisma/client@^6.7.0'']"

definition devDependencies :: "string list" where
  "devDependencies =
     [''prisma@^6.7.0'', ''@types/bcryptjs'', ''@types/jsonwebtoken'', ''vitest'',
      ''@vitejs/plugin-react'', ''@playwright/test'', ''husky'', ''lint-staged'', ''prettier'']"

text \<open>The five \<^verbatim>\<open>pnpm add\<close> command lines, in the order of the source.\<close>

definition installCommands :: "string list" where
  "installCommands =
     [''pnpm add '' @ join '' '' authDependencies,
      ''pnpm add '' @ join '' '' formDependencies,
      ''pnpm add '' @ join '' '' stateDependencies,
      ''pnpm add '' @ join '' '' databaseDependencies,
      ''pnpm add -D '' @ join '' '' devDependencies]"

definition huskyInit :: string where
  "huskyInit = ''pnpm dlx husky@latest init''"

definition prismaInit :: string where
  "prismaInit = ''pnpm exec prisma init --datasource-provider sqlserver''"

text \<open>\<^verbatim>\<open>let name = projectName; if (!name) { ... name = answers.projectName; }\<close>\<close>

definition resolveName :: "world \<Rightarrow> string option" where
  "resolveName w =
     (case projectName w of
        None \<Rightarrow> prompt (typed w)
      | Some n \<Rightarrow> if n = [] then prompt (typed w) else Some n)"

text \<open>
  The \<^verbatim>\<open>try\<close> block of the action from the blue line on. The one-second pause after
  \<^verbatim>\<open>create-next-app\<close> is not modelled.
\<close>

definition initBody :: "world \<Rightarrow> string \<Rightarrow> step" where
  "initBody w name =
     seq
       [say Scaffolding,
        say (SpinnerStart ''Membuat Next.js app...''),
        tryCatch
          (seq [act w (Exec (createNextApp name)),
                say (SpinnerSucceed ''Next.js app berhasil dibuat'')])
          (\<lambda>error. seq [say (SpinnerFail ''Gagal membuat Next.js app''), throw error]),
        (if \<not> exists_after w then throw (FolderNotFound name) else seq []),
        act w Chdir,
        say (SpinnerStart ''Menginstall dependencies...''),
        tryCatch
          (seq [perform w (map Exec installCommands),
                say (SpinnerSucceed ''Dependencies berhasil diinstall'')])
          (\<lambda>error. seq [say (SpinnerFail ''Gagal menginstall dependencies''), throw error]),
        say (SpinnerSucceed ''Dependencies berhasil diinstall''),
        say (SpinnerStart ''Membuat struktur folder...''),
        createProjectStructure w,
        say (SpinnerSucceed ''Struktur folder berhasil dibuat''),
        say (SpinnerStart ''Membuat file konfigurasi...''),
        createConfigFiles w,
        say (SpinnerSucceed ''File konfigurasi berhasil dibuat''),
        say (SpinnerStart ''Menginstall shadcn/ui...''),
        setupShadcn w,
        say (SpinnerSucceed ''shadcn/ui berhasil diinstall''),
        say (SpinnerStart ''Setup Husky...''),
        tryCatch
          (seq [act w (Exec huskyInit),
                setupHusky w,
                say (SpinnerSucceed ''Husky berhasil di-setup'')])
          (\<lambda>error. say (SpinnerWarn ''Husky setup warning (silahkan setup manual jika diperlukan)'')),
        say (SpinnerStart ''Inisialisasi Prisma...''),
        tryCatch
          (seq [act w (Exec prismaInit),
                setupPrisma w,
                say (SpinnerSucceed ''Prisma berhasil diinisialisasi'')])
          (\<lambda>error. seq [say (SpinnerWarn ''Prisma init warning (akan di-setup manual)''),
                         setupPrisma w]),
        say (ProjectCreated name)]"

text \<open>
  How a run ends: \<^verbatim>\<open>process.exit(code)\<close>, the end of the action, or the prompt still
  waiting for an accepted name.
\<close>

datatype ending = Exit nat | Completed | AwaitingName

text \<open>
  The action of \<^verbatim>\<open>init\<close>: the events of the run and how it ends. When the target exists
  the process exits inside the \<^verbatim>\<open>try\<close> block; an exception of the body reaches the outer
  \<^verbatim>\<open>catch\<close>, which prints the error block and exits with status 1.
\<close>

definition init :: "world \<Rightarrow> event list \<times> ending" where
  "init w =
     (case resolveName w of
        None \<Rightarrow> ([], AwaitingName)
      | Some name \<Rightarrow>
          if exists_before w then ([Out (FolderExists name)], Exit 1)
          else
            (case initBody w name [] of
               (None, es) \<Rightarrow> (es, Completed)
             | (Some e, es) \<Rightarrow> (es @ [Out (ErrorReport e)], Exit 1)))"

text \<open>The external commands a run invoked, in order, whether or not they succeeded.\<close>

fun execs :: "event list \<Rightarrow> string list" where
  "execs [] = []"
| "execs (Did (Exec c) # es) = c # execs es"
| "execs (Failed (Exec c) # es) = c # execs es"
| "execs (e # es) = execs es"

text \<open>A world in which nothing throws, and one in which exactly the given commands do.\<close>

definition reliable :: "event list \<Rightarrow> action \<Rightarrow> bool" where
  "reliable h a = False"

definition failing :: "string list \<Rightarrow> event list \<Rightarrow> action \<Rightarrow> bool" where
  "failing cs h a = (case a of Exec c \<Rightarrow> c \<in> set cs | _ \<Rightarrow> False)"

subsection \<open>Postconditions of steps\<close>

text \<open>The operations of a run that threw, in order.\<close>

fun failures :: "event list \<Rightarrow> action list" where
  "failures [] = []"
| "failures (Failed a # es) = a # failures es"
| "failures (e # es) = failures es"

text \<open>The operations a list of events made or attempted.\<close>

definition touched :: "event list \<Rightarrow> action set" where
  "touched es = {a. Did a \<in> set es \<or> Failed a \<in> set es}"

text \<open>
  A postcondition of a step: it holds of the exception and the events the step gives,
  whatever happened before.
\<close>

definition post :: "step \<Rightarrow> (exn option \<Rightarrow> event list \<Rightarrow> bool) \<Rightarrow> bool" where
  "post p Q \<longleftrightarrow> (\<forall>h. Q (fst (p h)) (snd (p h)))"

text \<open>A postcondition that running steps in sequence preserves.\<close>

definition sequential :: "(exn option \<Rightarrow> event list \<Rightarrow> bool) \<Rightarrow> bool" where
  "sequential Q \<longleftrightarrow> Q None [] \<and> (\<forall>es r es'. Q None es \<longrightarrow> Q r es' \<longrightarrow> Q r (es @ es'))"

text \<open>Every operation made or attempted is in \<open>S\<close>.\<close>

definition only :: "action set \<Rightarrow> exn option \<Rightarrow> event list \<Rightarrow> bool" where
  "only S r es \<longleftrightarrow> touched es \<subseteq> S"

text \<open>If \<open>a\<close> threw, its exception is what the step throws.\<close>

definition strict :: "action \<Rightarrow> exn option \<Rightarrow> event list \<Rightarrow> bool" where
  "strict a r es \<longleftrightarrow> (Failed a \<in> set es \<longrightarrow> r = Some (ActionFailed a))"

text \<open>If the step throws, some operation outside \<open>B\<close> threw.\<close>

definition blames :: "action set \<Rightarrow> exn option \<Rightarrow> event list \<Rightarrow> bool" where
  "blames B r es \<longleftrightarrow> (r \<noteq> None \<longrightarrow> (\<exists>a. Failed a \<in> set es \<and> a \<notin> B))"

text \<open>If \<open>a\<close> threw, \<open>x\<close> was printed.\<close>

definition warns :: "action \<Rightarrow> printed \<Rightarrow> exn option \<Rightarrow> event list \<Rightarrow> bool" where
  "warns a x r es \<longleftrightarrow> (Failed a \<in> set es \<longrightarrow> Out x \<in> set es)"

text \<open>If the step does not throw, the commands it invoked are \<open>X\<close>.\<close>

definition wins :: "string list \<Rightarrow> exn option \<Rightarrow> event list \<Rightarrow> bool" where
  "wins X r es \<longleftrightarrow> (r = None \<longrightarrow> execs es = X)"

text \<open>The commands the step invoked are \<open>X\<close>, whether or not it throws.\<close>

definition runs :: "string list \<Rightarrow> exn option \<Rightarrow> event list \<Rightarrow> bool" where
  "runs X r es \<longleftrightarrow> execs es = X"

text \<open>The step throws.\<close>

definition throws :: "exn option \<Rightarrow> event list \<Rightarrow> bool" where
  "throws r es \<longleftrightarrow> r \<noteq> None"

text \<open>The operations that are not external commands.\<close>

definition file_ops :: "action set" where
  "file_ops = {a. \<forall>c. a \<noteq> Exec c}"

section \<open>Properties of the naming validator\<close>

lemma str_split_not_Nil: "str_split d s \<noteq> []"
  by (induction s) (auto split: list.splits)

lemma hd_str_split: "hd (str_split d s) = takeWhile (\<lambda>c. c \<noteq> d) s"
  by (induction s) (auto split: list.splits simp: str_split_not_Nil)

lemma nameWithoutExt_eq: "nameWithoutExt f = Some (takeWhile (\<lambda>c. c \<noteq> CHR ''.'') f)"
  using hd_str_split [of "CHR ''.''" f] str_split_not_Nil [of "CHR ''.''" f]
  by (auto simp: nameWithoutExt_def split: list.splits)

lemma special_kebab: "n \<in> set specialFiles \<Longrightarrow> kebabCase n"
  by (auto simp: specialFiles_def kebabCase_def isLower_def isDigit_def)

lemma validateFileName_component:
  "fst (validateFileName f p True) \<longleftrightarrow>
     takeWhile (\<lambda>c. c \<noteq> CHR ''.'') f \<in> set specialFiles \<or> pascalCase (takeWhile (\<lambda>c. c \<noteq> CHR ''.'') f)"
  by (simp add: validateFileName_def nameWithoutExt_eq Let_def)

lemma validateFileName_other:
  "fst (validateFileName f p False) \<longleftrightarrow> kebabCase (takeWhile (\<lambda>c. c \<noteq> CHR ''.'') f)"
  using special_kebab by (auto simp add: validateFileName_def nameWithoutExt_eq Let_def)

text \<open>
  Claim C1, as stated, fails: \<^verbatim>\<open>page.tsx\<close> is a component file, the part of its name
  before the first dot is \<^verbatim>\<open>page\<close>, which does not match the PascalCase expression, and
  \<^verbatim>\<open>validateFileName\<close> accepts it all the same.
\<close>

theorem file_name_rule_counterexample: "isComponentFile ''page.tsx'' \<and> nameWithoutExt ''page.tsx'' = Some ''page'' \<and> \<not> pascalCase ''page''
   \<and> fst (validateFileName ''page.tsx'' ''src/app/page.tsx'' (isComponentFile ''page.tsx''))"
  by (simp add: isComponentFile_def endsWith_def nameWithoutExt_def pascalCase_def isUpper_def validateFileName_def specialFiles_def)


lemma validateFileName_msgs: "fst (validateFileName f p b) \<longleftrightarrow> snd (validateFileName f p b) = []"
  by (simp add: validateFileName_def Let_def)

lemma validateFolderName_msgs: "fst (validateFolderName n p) \<longleftrightarrow> snd (validateFolderName n p) = []"
  by (simp add: validateFolderName_def)

lemma folderStep_hasError:
  "hasError (folderStep parts i st) \<longleftrightarrow>
     hasError st \<or> \<not> fst (validateFolderName (parts ! i) (join ''/'' (take (i + 1) parts)))"
  by (simp add: folderStep_def Let_def split: prod.splits)

lemma folderStep_stderr:
  "stderr (folderStep parts i st) =
     stderr st @ snd (validateFolderName (parts ! i) (join ''/'' (take (i + 1) parts)))"
  by (simp add: folderStep_def Let_def split: prod.splits)

lemma fold_folderStep_hasError:
  "hasError (fold (folderStep parts) js st) \<longleftrightarrow>
     hasError st \<or>
     list_ex (\<lambda>i. \<not> fst (validateFolderName (parts ! i) (join ''/'' (take (i + 1) parts)))) js"
  by (induction js arbitrary: st) (auto simp: folderStep_hasError)

lemma fold_folderStep_stderr:
  "\<exists>ms. stderr (fold (folderStep parts) js st) = stderr st @ ms \<and>
        (ms = [] \<longleftrightarrow> list_all (\<lambda>i. fst (validateFolderName (parts ! i) (join ''/'' (take (i + 1) parts)))) js)"
proof (induction js arbitrary: st)
  case Nil
  show ?case by simp
next
  case (Cons j js)
  obtain ms where ms: "stderr (fold (folderStep parts) js (folderStep parts j st)) =
      stderr (folderStep parts j st) @ ms"
    "ms = [] \<longleftrightarrow> list_all (\<lambda>i. fst (validateFolderName (parts ! i) (join ''/'' (take (i + 1) parts)))) js"
    using Cons.IH [of "folderStep parts j st"] by blast
  show ?case
    using ms by (simp add: folderStep_stderr validateFolderName_msgs)
qed

lemma checkFile_skipped:
  "process_cwd p = Inr wd \<Longrightarrow> \<not> examined np wd file \<Longrightarrow> checkFile np p file st = Inr st"
  by (auto simp: checkFile_def examined_def Let_def)

lemma checkFile_gone: "process_cwd p = Inl e \<Longrightarrow> checkFile np p file st = Inl e"
  by (simp add: checkFile_def)

lemma checkFile_examined:
  assumes "process_cwd p = Inr wd" and "examined np wd file"
  shows "\<exists>st' ms. checkFile np p file st = Inr st' \<and>
           (hasError st' \<longleftrightarrow> hasError st \<or> violates np wd file) \<and>
           stderr st' =
             stderr st @
             snd (validateFileName (last (str_split (sep np) (relative np wd file)))
                    (relative np wd file)
                    (isComponentFile (last (str_split (sep np) (relative np wd file))))) @ ms \<and>
           (violates np wd file \<longleftrightarrow>
              snd (validateFileName (last (str_split (sep np) (relative np wd file)))
                    (relative np wd file)
                    (isComponentFile (last (str_split (sep np) (relative np wd file))))) @ ms \<noteq> [])"
proof -
  let ?rp = "relative np wd file"
  let ?parts = "str_split (sep np) ?rp"
  let ?v = "validateFileName (last ?parts) ?rp (isComponentFile (last ?parts))"
  let ?st1 = "\<lparr>hasError = (if \<not> fst ?v then True else hasError st), stderr = stderr st @ snd ?v\<rparr>"
  let ?js = "[1 ..< length ?parts - 1]"
  have run: "checkFile np p file st = Inr (fold (folderStep ?parts) ?js ?st1)"
    using assms
    by (simp add: checkFile_def examined_def Let_def str_split_not_Nil split: prod.splits)
  obtain ms where ms: "stderr (fold (folderStep ?parts) ?js ?st1) = stderr ?st1 @ ms"
    "ms = [] \<longleftrightarrow> list_all (\<lambda>i. fst (validateFolderName (?parts ! i) (join ''/'' (take (i + 1) ?parts)))) ?js"
    using fold_folderStep_stderr [of ?parts ?js ?st1] by blast
  have viol: "violates np wd file \<longleftrightarrow> \<not> fst ?v \<or>
      list_ex (\<lambda>i. \<not> fst (validateFolderName (?parts ! i) (join ''/'' (take (i + 1) ?parts)))) ?js"
    using assms(2) by (simp add: violates_def Let_def)
  have he: "hasError (fold (folderStep ?parts) ?js ?st1) \<longleftrightarrow> hasError st \<or> violates np wd file"
    by (auto simp: fold_folderStep_hasError viol)
  have v2: "violates np wd file \<longleftrightarrow> snd ?v @ ms \<noteq> []"
    using ms(2) by (auto simp: viol validateFileName_msgs list_ex_iff list_all_iff)
  show ?thesis
    using run ms(1) he v2 by simp
qed

lemma checkFile_inv:
  assumes "process_cwd p = Inr wd"
  shows "\<exists>st' ms. checkFile np p file st = Inr st' \<and>
           (hasError st' \<longleftrightarrow> hasError st \<or> violates np wd file) \<and>
           stderr st' = stderr st @ ms \<and>
           (violates np wd file \<longleftrightarrow> ms \<noteq> [])"
proof (cases "examined np wd file")
  case True
  from checkFile_examined [OF assms True, of st] show ?thesis by (metis append.assoc)
next
  case False
  with assms show ?thesis by (simp add: checkFile_skipped violates_def)
qed

lemma forEach_inv:
  assumes "process_cwd p = Inr wd"
  shows "\<exists>st' ms. forEach np p files st = (None, st') \<and>
           (hasError st' \<longleftrightarrow> hasError st \<or> list_ex (violates np wd) files) \<and>
           stderr st' = stderr st @ ms \<and>
           (list_ex (violates np wd) files \<longleftrightarrow> ms \<noteq> [])"
proof (induction files arbitrary: st)
  case Nil
  show ?case by simp
next
  case (Cons f fs)
  obtain st1 ms1 where 1: "checkFile np p f st = Inr st1"
      "hasError st1 \<longleftrightarrow> hasError st \<or> violates np wd f"
      "stderr st1 = stderr st @ ms1" "violates np wd f \<longleftrightarrow> ms1 \<noteq> []"
    using checkFile_inv [OF assms, of np f st] by blast
  obtain st2 ms2 where 2: "forEach np p fs st1 = (None, st2)"
      "hasError st2 \<longleftrightarrow> hasError st1 \<or> list_ex (violates np wd) fs"
      "stderr st2 = stderr st1 @ ms2" "list_ex (violates np wd) fs \<longleftrightarrow> ms2 \<noteq> []"
    using Cons.IH [of st1] by blast
  show ?case
    using 1 2 by auto
qed

lemma forEach_gone:
  "process_cwd p = Inl e \<Longrightarrow> files \<noteq> [] \<Longrightarrow> forEach np p files st = (Some e, st)"
  by (cases files) (simp_all add: checkFile_gone)

lemma forEach_keeps:
  "process_cwd p = Inr wd \<Longrightarrow> forEach np p files st = (None, st') \<Longrightarrow>
   set (stderr st) \<subseteq> set (stderr st')"
  using forEach_inv [of p wd np files st] by auto

lemma forEach_reports:
  assumes "process_cwd p = Inr wd"
    and "file \<in> set files" and "examined np wd file"
    and "forEach np p files st = (None, st')"
  shows "set (snd (validateFileName (last (str_split (sep np) (relative np wd file)))
                    (relative np wd file)
                    (isComponentFile (last (str_split (sep np) (relative np wd file))))))
         \<subseteq> set (stderr st')"
  using assms(2,4)
proof (induction files arbitrary: st)
  case Nil
  then show ?case by simp
next
  case (Cons f fs)
  obtain st1 where 1: "checkFile np p f st = Inr st1"
    using checkFile_inv [OF assms(1), of np f st] by blast
  with Cons.prems have 2: "forEach np p fs st1 = (None, st')" by simp
  show ?case
  proof (cases "file = f")
    case True
    from checkFile_examined [OF assms(1,3), of st] 1 True
    have "set (snd (validateFileName (last (str_split (sep np) (relative np wd file)))
                    (relative np wd file)
                    (isComponentFile (last (str_split (sep np) (relative np wd file))))))
          \<subseteq> set (stderr st1)" by auto
    with forEach_keeps [OF assms(1) 2] show ?thesis by blast
  next
    case False
    with Cons.prems have "file \<in> set fs" by simp
    from Cons.IH [OF this 2] show ?thesis .
  qed
qed



lemma endsWith_iff: "endsWith s t \<longleftrightarrow> (\<exists>pre. s = pre @ t)"
proof
  assume "endsWith s t"
  then have "s = take (length s - length t) s @ t"
    by (metis append_take_drop_id endsWith_def)
  then show "\<exists>pre. s = pre @ t" ..
next
  assume "\<exists>pre. s = pre @ t"
  then show "endsWith s t" by (auto simp: endsWith_def)
qed

text \<open>
  Claim C1, amended: a file is a component file exactly when its name ends with
  \<^verbatim>\<open>.tsx\<close> or \<^verbatim>\<open>.jsx\<close>; the name checked is the part before the first dot; a component
  file passes exactly when that part is one of the special names or matches the PascalCase
  expression; any other file passes exactly when that part matches the kebab-case
  expression.
\<close>

theorem file_name_rule:
  "(isComponentFile filename \<longleftrightarrow>
      (\<exists>pre. filename = pre @ ''.tsx'') \<or> (\<exists>pre. filename = pre @ ''.jsx'')) \<and>
   nameWithoutExt filename = Some (takeWhile (\<lambda>c. c \<noteq> CHR ''.'') filename) \<and>
   (fst (validateFileName filename filePath True) \<longleftrightarrow>
      takeWhile (\<lambda>c. c \<noteq> CHR ''.'') filename \<in> set specialFiles \<or>
      pascalCase (takeWhile (\<lambda>c. c \<noteq> CHR ''.'') filename)) \<and>
   (fst (validateFileName filename filePath False) \<longleftrightarrow>
      kebabCase (takeWhile (\<lambda>c. c \<noteq> CHR ''.'') filename))"
  by (simp only: isComponentFile_def endsWith_iff nameWithoutExt_eq
        validateFileName_component validateFileName_other simp_thms)

text \<open>The rule of C1 at \<^verbatim>\<open>UserProfile.tsx\<close>.\<close>

theorem file_name_rule_witness:
  "isComponentFile ''UserProfile.tsx'' \<and>
   nameWithoutExt ''UserProfile.tsx'' = Some ''UserProfile'' \<and>
   fst (validateFileName ''UserProfile.tsx'' ''src/components/UserProfile.tsx'' True) \<and>
   \<not> fst (validateFileName ''UserProfile.tsx'' ''src/components/UserProfile.tsx'' False)"
  using file_name_rule [of "''UserProfile.tsx''" "''src/components/UserProfile.tsx''"]
  by (simp add: pascalCase_def kebabCase_def isUpper_def isLower_def isDigit_def specialFiles_def)

text \<open>
  Claim C2: a file whose name before the first dot is one of the special names is accepted
  by \<^verbatim>\<open>validateFileName\<close> with no message, whatever its extension and whether or not it
  is a component file.
\<close>

theorem special_file_accepted:
  assumes "takeWhile (\<lambda>c. c \<noteq> CHR ''.'') filename \<in> set specialFiles"
  shows "nameWithoutExt filename = Some (takeWhile (\<lambda>c. c \<noteq> CHR ''.'') filename) \<and>
         validateFileName filename filePath isComponent = (True, [])"
  using assms by (simp add: validateFileName_def nameWithoutExt_eq Let_def)

text \<open>C2 at \<^verbatim>\<open>not-found.tsx\<close>, a component file whose name is not PascalCase.\<close>

theorem special_file_accepted_witness:
  "takeWhile (\<lambda>c. c \<noteq> CHR ''.'') ''not-found.tsx'' \<in> set specialFiles \<and>
   \<not> pascalCase ''not-found'' \<and>
   validateFileName ''not-found.tsx'' ''src/app/not-found.tsx'' True = (True, [])"
proof -
  have h: "takeWhile (\<lambda>c. c \<noteq> CHR ''.'') ''not-found.tsx'' \<in> set specialFiles"
    by (simp add: specialFiles_def)
  have "\<not> pascalCase ''not-found''"
    by (simp add: pascalCase_def isUpper_def)
  with h special_file_accepted [OF h, of "''src/app/not-found.tsx''" True] show ?thesis
    by simp
qed

text \<open>
  Claim C3, as stated, fails: when the working directory no longer exists,
  \<^verbatim>\<open>process.cwd()\<close> throws at the first staged file and nothing catches it. The run ends
  by that exception, with exit code 1, although no file violates a rule and neither an
  error message nor the summary has been printed.
\<close>

theorem validate_naming_uncaught_counterexample:
  "status (validate_naming posix
     \<lparr>argv = [''node'', ''.husky/validate-naming.js'', ''src/lib/auth-service.ts''],
      cwd = ''/home/dev/app'', disk = Map.empty\<rparr>) = Thrown ENOENT \<and>
   exit_code (status (validate_naming posix
     \<lparr>argv = [''node'', ''.husky/validate-naming.js'', ''src/lib/auth-service.ts''],
      cwd = ''/home/dev/app'', disk = Map.empty\<rparr>)) = 1 \<and>
   err_lines (validate_naming posix
     \<lparr>argv = [''node'', ''.husky/validate-naming.js'', ''src/lib/auth-service.ts''],
      cwd = ''/home/dev/app'', disk = Map.empty\<rparr>) = [] \<and>
   \<not> list_ex (violates posix ''/home/dev/app'') [''src/lib/auth-service.ts'']"
  by (simp add: validate_naming_def checkFile_def process_cwd_def
        violates_def examined_def posix_def startsWith_def Let_def
        validateFileName_def nameWithoutExt_def isComponentFile_def endsWith_def
        specialFiles_def kebabCase_def isLower_def isDigit_def
        validateFolderName_def specialFolders_def)

text \<open>
  Claim C3, amended: when \<^verbatim>\<open>process.cwd()\<close> returns, the script has exactly two outcomes.
  It exits with status 1, after at least one error message followed by the summary,
  exactly when some staged file that is examined has a file name or a folder segment that
  fails its check; otherwise it ends normally, having printed nothing but the success
  line. When \<^verbatim>\<open>process.cwd()\<close> throws and a file is staged, the run ends by that uncaught
  exception, with neither the summary nor the success line. With no staged file the run
  ends normally.
\<close>

theorem validate_naming_outcomes:
  "(process_cwd p = Inr wd \<longrightarrow>
      (status (validate_naming np p) = Exit1 \<longleftrightarrow>
         list_ex (violates np wd) (drop 2 (argv p))) \<and>
      (status (validate_naming np p) = Exit1 \<longrightarrow>
         out_lines (validate_naming np p) = [] \<and>
         (\<exists>ms. ms \<noteq> [] \<and> err_lines (validate_naming np p) = ms @ [ErrSummary])) \<and>
      (status (validate_naming np p) \<noteq> Exit1 \<longrightarrow>
         status (validate_naming np p) = Terminated \<and>
         err_lines (validate_naming np p) = [] \<and>
         out_lines (validate_naming np p) = [NamingValid])) \<and>
   (process_cwd p = Inl e \<and> drop 2 (argv p) \<noteq> [] \<longrightarrow>
      status (validate_naming np p) = Thrown e \<and>
      ErrSummary \<notin> set (err_lines (validate_naming np p)) \<and>
      out_lines (validate_naming np p) = []) \<and>
   (drop 2 (argv p) = [] \<longrightarrow>
      validate_naming np p =
        \<lparr>status = Terminated, err_lines = [], out_lines = [NamingValid]\<rparr>)"
proof (intro conjI impI)
  assume cwd: "process_cwd p = Inr wd"
  obtain st' ms where r:
    "forEach np p (drop 2 (argv p)) \<lparr>hasError = False, stderr = []\<rparr> = (None, st')"
    "hasError st' \<longleftrightarrow> list_ex (violates np wd) (drop 2 (argv p))"
    "stderr st' = ms" "list_ex (violates np wd) (drop 2 (argv p)) \<longleftrightarrow> ms \<noteq> []"
    using forEach_inv [OF cwd, of np "drop 2 (argv p)" "\<lparr>hasError = False, stderr = []\<rparr>"]
    by auto
  show "status (validate_naming np p) = Exit1 \<longleftrightarrow>
      list_ex (violates np wd) (drop 2 (argv p))"
    using r by (simp add: validate_naming_def)
  show "out_lines (validate_naming np p) = []"
    if "status (validate_naming np p) = Exit1"
    using r that by (simp add: validate_naming_def split: if_splits)
  show "\<exists>ms. ms \<noteq> [] \<and> err_lines (validate_naming np p) = ms @ [ErrSummary]"
    if "status (validate_naming np p) = Exit1"
    using r that by (simp add: validate_naming_def split: if_splits)
  show "status (validate_naming np p) = Terminated"
    if "status (validate_naming np p) \<noteq> Exit1"
    using r that by (simp add: validate_naming_def split: if_splits)
  show "err_lines (validate_naming np p) = []"
    if "status (validate_naming np p) \<noteq> Exit1"
    using r that by (simp add: validate_naming_def split: if_splits)
  show "out_lines (validate_naming np p) = [NamingValid]"
    if "status (validate_naming np p) \<noteq> Exit1"
    using r that by (simp add: validate_naming_def split: if_splits)
next
  assume gone: "process_cwd p = Inl e \<and> drop 2 (argv p) \<noteq> []"
  then show "status (validate_naming np p) = Thrown e"
    by (simp add: validate_naming_def forEach_gone)
  from gone show "ErrSummary \<notin> set (err_lines (validate_naming np p))"
    by (simp add: validate_naming_def forEach_gone)
  from gone show "out_lines (validate_naming np p) = []"
    by (simp add: validate_naming_def forEach_gone)
next
  assume "drop 2 (argv p) = []"
  then show "validate_naming np p =
      \<lparr>status = Terminated, err_lines = [], out_lines = [NamingValid]\<rparr>"
    by (simp add: validate_naming_def)
qed

text \<open>
  C3, amended, at a run with a bad file name and a bad folder name, at a conforming run,
  at a run whose working directory is gone, and at a run with nothing staged.
\<close>

theorem validate_naming_outcomes_witness:
  "process_cwd \<lparr>argv = [''node'', ''.husky/validate-naming.js'', ''src/lib/authService.ts'',
                        ''src/Bad_Dir/ok.ts''],
                cwd = ''/home/dev/app'', disk = [''/home/dev/app'' \<mapsto> Directory]\<rparr>
     = Inr ''/home/dev/app'' \<and>
   list_ex (violates posix ''/home/dev/app'') [''src/lib/authService.ts'', ''src/Bad_Dir/ok.ts''] \<and>
   validate_naming posix
     \<lparr>argv = [''node'', ''.husky/validate-naming.js'', ''src/lib/authService.ts'',
              ''src/Bad_Dir/ok.ts''],
      cwd = ''/home/dev/app'', disk = [''/home/dev/app'' \<mapsto> Directory]\<rparr>
     = \<lparr>status = Exit1,
        err_lines = [ErrFile ''src/lib/authService.ts'', ErrFolder ''src/Bad_Dir'', ErrSummary],
        out_lines = []\<rparr> \<and>
   \<not> list_ex (violates posix ''/home/dev/app'') [''src/lib/auth-service.ts''] \<and>
   validate_naming posix
     \<lparr>argv = [''node'', ''.husky/validate-naming.js'', ''src/lib/auth-service.ts''],
      cwd = ''/home/dev/app'', disk = [''/home/dev/app'' \<mapsto> Directory]\<rparr>
     = \<lparr>status = Terminated, err_lines = [], out_lines = [NamingValid]\<rparr> \<and>
   status (validate_naming posix
     \<lparr>argv = [''node'', ''.husky/validate-naming.js'', ''src/lib/authService.ts''],
      cwd = ''/home/dev/app'', disk = Map.empty\<rparr>) = Thrown ENOENT \<and>
   validate_naming posix
     \<lparr>argv = [''node'', ''.husky/validate-naming.js''],
      cwd = ''/home/dev/app'', disk = Map.empty\<rparr>
     = \<lparr>status = Terminated, err_lines = [], out_lines = [NamingValid]\<rparr>"
proof -
  let ?bad = "\<lparr>argv = [''node'', ''.husky/validate-naming.js'', ''src/lib/authService.ts'',
                        ''src/Bad_Dir/ok.ts''],
                cwd = ''/home/dev/app'', disk = [''/home/dev/app'' \<mapsto> Directory]\<rparr>"
  let ?good = "\<lparr>argv = [''node'', ''.husky/validate-naming.js'', ''src/lib/auth-service.ts''],
      cwd = ''/home/dev/app'', disk = [''/home/dev/app'' \<mapsto> Directory]\<rparr>"
  let ?gone = "\<lparr>argv = [''node'', ''.husky/validate-naming.js'', ''src/lib/authService.ts''],
      cwd = ''/home/dev/app'', disk = Map.empty\<rparr>"
  let ?none = "\<lparr>argv = [''node'', ''.husky/validate-naming.js''],
      cwd = ''/home/dev/app'', disk = Map.empty\<rparr>"
  have cwd: "process_cwd ?bad = Inr ''/home/dev/app''" "process_cwd ?good = Inr ''/home/dev/app''"
    "process_cwd ?gone = Inl ENOENT"
    by (simp_all add: process_cwd_def)
  have a: "list_ex (violates posix ''/home/dev/app'')
      [''src/lib/authService.ts'', ''src/Bad_Dir/ok.ts'']"
    by (simp add: violates_def examined_def posix_def startsWith_def Let_def
          validateFileName_def nameWithoutExt_def isComponentFile_def endsWith_def
          specialFiles_def kebabCase_def isLower_def isDigit_def)
  have b: "\<not> list_ex (violates posix ''/home/dev/app'') [''src/lib/auth-service.ts'']"
    by (simp add: violates_def examined_def posix_def startsWith_def Let_def
          validateFileName_def nameWithoutExt_def isComponentFile_def endsWith_def
          specialFiles_def kebabCase_def isLower_def isDigit_def
          validateFolderName_def specialFolders_def)
  have msgs: "err_lines (validate_naming posix ?bad) =
      [ErrFile ''src/lib/authService.ts'', ErrFolder ''src/Bad_Dir'', ErrSummary]"
    by code_simp
  have "status (validate_naming posix ?bad) = Exit1 \<and> out_lines (validate_naming posix ?bad) = []"
    using validate_naming_outcomes [of ?bad "''/home/dev/app''" posix] cwd(1) a by simp
  with msgs have 1: "validate_naming posix ?bad =
      \<lparr>status = Exit1,
        err_lines = [ErrFile ''src/lib/authService.ts'', ErrFolder ''src/Bad_Dir'', ErrSummary],
        out_lines = []\<rparr>"
    by (cases "validate_naming posix ?bad") simp
  have "status (validate_naming posix ?good) = Terminated \<and>
      err_lines (validate_naming posix ?good) = [] \<and>
      out_lines (validate_naming posix ?good) = [NamingValid]"
    using validate_naming_outcomes [of ?good "''/home/dev/app''" posix] cwd(2) b by simp
  then have 2: "validate_naming posix ?good =
      \<lparr>status = Terminated, err_lines = [], out_lines = [NamingValid]\<rparr>"
    by (cases "validate_naming posix ?good") simp
  have 3: "status (validate_naming posix ?gone) = Thrown ENOENT"
    using validate_naming_outcomes [of ?gone _ posix ENOENT] cwd(3) by simp
  have 4: "validate_naming posix ?none =
      \<lparr>status = Terminated, err_lines = [], out_lines = [NamingValid]\<rparr>"
    using validate_naming_outcomes [of ?none _ posix] by simp
  from cwd(1) a b 1 2 3 4 show ?thesis by simp
qed




text \<open>
  Claim C10, as stated, fails at the very file it names: the relative path of
  \<^verbatim>\<open>src/components/forms/.gitkeep\<close> contains \<^verbatim>\<open>.git\<close>, the loop skips it, and the run
  reports nothing.
\<close>

theorem dotfile_counterexample:
  "startsWith ''src/components/forms/.gitkeep'' ''src/'' \<and>
   startsWith (last (str_split CHR ''/'' ''src/components/forms/.gitkeep'')) ''.'' \<and>
   validate_naming posix
     \<lparr>argv = [''node'', ''.husky/validate-naming.js'', ''src/components/forms/.gitkeep''],
      cwd = ''/home/dev/app'', disk = [''/home/dev/app'' \<mapsto> Directory]\<rparr> =
   \<lparr>status = Terminated, err_lines = [], out_lines = [NamingValid]\<rparr>"
  by (simp add: startsWith_def validate_naming_def checkFile_def process_cwd_def posix_def
        Let_def)

text \<open>
  Claim C10, amended: for a staged file that is examined (its relative path starts with
  \<^verbatim>\<open>src/\<close> and contains none of \<^verbatim>\<open>node_modules\<close>, \<^verbatim>\<open>.next\<close>, \<^verbatim>\<open>dist\<close>, \<^verbatim>\<open>.git\<close>) and
  whose name begins with a dot, the name before the first dot is empty, is not a special
  name and matches neither expression, so the file name is rejected and the run exits
  with status 1 after an error message for that path. The relative path is that of
  \<^verbatim>\<open>path.relative(process.cwd(), file)\<close>, so \<^verbatim>\<open>process.cwd()\<close> has returned.
\<close>

theorem dotfile_reported:
  assumes "file \<in> set (drop 2 (argv p))"
    and "process_cwd p = Inr wd"
    and "examined np wd file"
    and "startsWith (last (str_split (sep np) (relative np wd file))) ''.''"
  shows "nameWithoutExt (last (str_split (sep np) (relative np wd file))) = Some [] \<and>
         [] \<notin> set specialFiles \<and> \<not> kebabCase [] \<and> \<not> pascalCase [] \<and>
         \<not> fst (validateFileName (last (str_split (sep np) (relative np wd file)))
                  (relative np wd file) isComponent) \<and>
         status (validate_naming np p) = Exit1 \<and>
         (ErrComponent (relative np wd file) \<in> set (err_lines (validate_naming np p)) \<or>
          ErrFile (relative np wd file) \<in> set (err_lines (validate_naming np p)))"
proof -
  let ?rp = "relative np wd file"
  let ?fn = "last (str_split (sep np) ?rp)"
  from assms(4) obtain rest where fn: "?fn = CHR ''.'' # rest"
    by (cases ?fn) (auto simp: startsWith_def)
  have n: "nameWithoutExt ?fn = Some []"
    by (simp add: nameWithoutExt_eq fn)
  have basics: "[] \<notin> set specialFiles" "\<not> kebabCase []" "\<not> pascalCase []"
    by (simp_all add: specialFiles_def kebabCase_def pascalCase_def)
  have bad: "\<not> fst (validateFileName ?fn ?rp b)" for b
    using basics by (simp add: validateFileName_def n Let_def)
  have msg: "snd (validateFileName ?fn ?rp (isComponentFile ?fn)) = [ErrComponent ?rp] \<or>
             snd (validateFileName ?fn ?rp (isComponentFile ?fn)) = [ErrFile ?rp]"
    using basics by (simp add: validateFileName_def n Let_def)
  have v: "violates np wd file"
    using assms(3) bad by (simp add: violates_def Let_def)
  then have ex: "list_ex (violates np wd) (drop 2 (argv p))"
    using assms(1) by (auto simp: list_ex_iff)
  obtain st' where r:
    "forEach np p (drop 2 (argv p)) \<lparr>hasError = False, stderr = []\<rparr> = (None, st')"
    "hasError st' \<longleftrightarrow> list_ex (violates np wd) (drop 2 (argv p))"
    using forEach_inv [OF assms(2), of np "drop 2 (argv p)" "\<lparr>hasError = False, stderr = []\<rparr>"]
    by auto
  have sub: "set (snd (validateFileName ?fn ?rp (isComponentFile ?fn))) \<subseteq> set (stderr st')"
    using forEach_reports [OF assms(2) assms(1) assms(3) r(1)] .
  have res: "validate_naming np p =
      \<lparr>status = Exit1, err_lines = stderr st' @ [ErrSummary], out_lines = []\<rparr>"
    using r ex by (simp add: validate_naming_def)
  have "ErrComponent ?rp \<in> set (stderr st') \<or> ErrFile ?rp \<in> set (stderr st')"
    using msg sub by auto
  then show ?thesis
    using n basics bad res by auto
qed

text \<open>C10, amended, at \<^verbatim>\<open>src/lib/.eslintrc.json\<close>.\<close>

theorem dotfile_reported_witness:
  "status (validate_naming posix
     \<lparr>argv = [''node'', ''.husky/validate-naming.js'', ''src/lib/.eslintrc.json''],
      cwd = ''/home/dev/app'', disk = [''/home/dev/app'' \<mapsto> Directory]\<rparr>) = Exit1 \<and>
   examined posix ''/home/dev/app'' ''src/lib/.eslintrc.json'' \<and>
   nameWithoutExt ''.eslintrc.json'' = Some []"
proof -
  let ?p = "\<lparr>argv = [''node'', ''.husky/validate-naming.js'', ''src/lib/.eslintrc.json''],
      cwd = ''/home/dev/app'', disk = [''/home/dev/app'' \<mapsto> Directory]\<rparr>"
  have 1: "''src/lib/.eslintrc.json'' \<in> set (drop 2 (argv ?p))" by simp
  have c: "process_cwd ?p = Inr ''/home/dev/app''" by (simp add: process_cwd_def)
  have 2: "examined posix ''/home/dev/app'' ''src/lib/.eslintrc.json''"
    by (simp add: examined_def posix_def startsWith_def Let_def)
  have 3: "startsWith (last (str_split (sep posix)
             (relative posix ''/home/dev/app'' ''src/lib/.eslintrc.json''))) ''.''"
    by (simp add: posix_def startsWith_def)
  from dotfile_reported [OF 1 c 2 3, of False] 2 show ?thesis
    by (simp add: posix_def)
qed

section \<open>Properties of the \<^verbatim>\<open>init\<close> command\<close>

lemma touched_simps [simp]:
  "touched [] = {}"
  "touched (Did a # es) = insert a (touched es)"
  "touched (Failed a # es) = insert a (touched es)"
  "touched (Out x # es) = touched es"
  "touched (es @ es') = touched es \<union> touched es'"
  by (auto simp: touched_def)

lemma execs_append [simp]: "execs (es @ es') = execs es @ execs es'"
  by (induction es rule: execs.induct) auto

lemma execs_untouched: "\<forall>c. Exec c \<notin> touched es \<Longrightarrow> execs es = []"
  by (induction es rule: execs.induct) auto

lemma post_say: "Q None [Out x] \<Longrightarrow> post (say x) Q"
  by (simp add: post_def say_def)

lemma post_throw: "Q (Some e) [] \<Longrightarrow> post (throw e) Q"
  by (simp add: post_def throw_def)

lemma post_act: "Q None [Did a] \<Longrightarrow> Q (Some (ActionFailed a)) [Failed a] \<Longrightarrow> post (act w a) Q"
  by (simp add: post_def act_def)

lemma post_andThen:
  assumes "post p P" and "post q P'"
    and "\<And>e es. P (Some e) es \<Longrightarrow> Q (Some e) es"
    and "\<And>es r es'. P None es \<Longrightarrow> P' r es' \<Longrightarrow> Q r (es @ es')"
  shows "post (andThen p q) Q"
  unfolding post_def
proof
  fix h
  obtain r es where ph: "p h = (r, es)" by (cases "p h")
  obtain r' es' where qh: "q (h @ es) = (r', es')" by (cases "q (h @ es)")
  from assms(1) ph have p: "P r es" by (auto simp: post_def dest: spec [of _ h])
  from assms(2) qh have q: "P' r' es'" by (auto simp: post_def dest: spec [of _ "h @ es"])
  show "Q (fst (andThen p q h)) (snd (andThen p q h))"
  proof (cases r)
    case None
    with p q assms(4) ph qh show ?thesis by (simp add: andThen_def)
  next
    case (Some e)
    with p assms(3) ph show ?thesis by (simp add: andThen_def)
  qed
qed

lemma post_tryCatch:
  assumes "post p P" and "\<And>e. post (handler e) (P' e)"
    and "\<And>es. P None es \<Longrightarrow> Q None es"
    and "\<And>e es r es'. P (Some e) es \<Longrightarrow> P' e r es' \<Longrightarrow> Q r (es @ es')"
  shows "post (tryCatch p handler) Q"
  unfolding post_def
proof
  fix h
  obtain r es where ph: "p h = (r, es)" by (cases "p h")
  from assms(1) ph have p: "P r es" by (auto simp: post_def dest: spec [of _ h])
  show "Q (fst (tryCatch p handler h)) (snd (tryCatch p handler h))"
  proof (cases r)
    case None
    with p assms(3) ph show ?thesis by (simp add: tryCatch_def)
  next
    case (Some e)
    obtain r' es' where qh: "handler e (h @ es) = (r', es')" by (cases "handler e (h @ es)")
    from assms(2) [of e] qh have "P' e r' es'" by (auto simp: post_def dest: spec [of _ "h @ es"])
    with p Some assms(4) ph qh show ?thesis by (simp add: tryCatch_def)
  qed
qed

lemma post_seq:
  assumes "sequential Q" and "list_all (\<lambda>p. post p Q) ps"
  shows "post (seq ps) Q"
  using assms(2)
proof (induction ps)
  case Nil
  from assms(1) show ?case by (simp add: post_def sequential_def seq.simps)
next
  case (Cons p ps)
  then have "post p Q" "post (seq ps) Q" by simp_all
  then have "post (andThen p (seq ps)) Q"
  proof (rule post_andThen)
    show "\<And>e es. Q (Some e) es \<Longrightarrow> Q (Some e) es" .
    show "\<And>es r es'. Q None es \<Longrightarrow> Q r es' \<Longrightarrow> Q r (es @ es')"
      using assms(1) by (simp add: sequential_def)
  qed
  then show ?case by (simp add: seq.simps)
qed

lemma post_perform:
  assumes "sequential Q"
    and "\<And>a. a \<in> set as \<Longrightarrow> Q None [Did a] \<and> Q (Some (ActionFailed a)) [Failed a]"
  shows "post (perform w as) Q"
  unfolding perform_def
  by (rule post_seq [OF assms(1)]) (simp add: list_all_iff assms(2) post_act)

lemma post_weaken: "post p P \<Longrightarrow> (\<And>r es. P r es \<Longrightarrow> Q r es) \<Longrightarrow> post p Q"
  by (simp add: post_def)

lemma sequential_only: "sequential (only S)"
  by (simp add: sequential_def only_def)

lemma sequential_strict: "sequential (strict a)"
  by (auto simp: sequential_def strict_def)

lemma sequential_blames: "sequential (blames B)"
  by (auto simp: sequential_def blames_def)

lemma sequential_warns: "sequential (warns a x)"
  by (auto simp: sequential_def warns_def)

lemma post_seq_Nil: "sequential Q \<Longrightarrow> post (seq []) Q"
  by (simp add: post_def sequential_def)

declare seq.simps [simp del]

lemma postD: "post p Q \<Longrightarrow> p h = (r, es) \<Longrightarrow> Q r es"
  by (auto simp: post_def dest: spec [of _ h])

lemma init_cases:
  obtains
    (waiting) "resolveName w = None" "init w = ([], AwaitingName)"
  | (present) name where "resolveName w = Some name" "exists_before w"
      "init w = ([Out (FolderExists name)], Exit 1)"
  | (completed) name es where "resolveName w = Some name" "\<not> exists_before w"
      "initBody w name [] = (None, es)" "init w = (es, Completed)"
  | (aborted) name e es where "resolveName w = Some name" "\<not> exists_before w"
      "initBody w name [] = (Some e, es)" "init w = (es @ [Out (ErrorReport e)], Exit 1)"
proof (cases "resolveName w")
  case None
  then show ?thesis using waiting by (simp add: init_def)
next
  case (Some name)
  show ?thesis
  proof (cases "exists_before w")
    case True
    with Some show ?thesis using present by (simp add: init_def)
  next
    case False
    obtain r es where b: "initBody w name [] = (r, es)" by (cases "initBody w name []")
    show ?thesis
    proof (cases r)
      case None
      with Some False b show ?thesis using completed by (simp add: init_def)
    next
      case (Some e)
      with \<open>resolveName w = Some name\<close> False b show ?thesis
        using aborted by (simp add: init_def)
    qed
  qed
qed

lemma post_seq_Cons: "sequential Q \<Longrightarrow> post p Q \<Longrightarrow> post (seq ps) Q \<Longrightarrow> post (seq (p # ps)) Q"
  using post_andThen [of p Q "seq ps" Q Q]
  by (simp add: sequential_def seq.simps)

lemma post_if: "(c \<Longrightarrow> post p Q) \<Longrightarrow> (\<not> c \<Longrightarrow> post q Q) \<Longrightarrow> post (if c then p else q) Q"
  by simp

lemma only_tryCatch:
  "post p (only S) \<Longrightarrow> (\<And>e. post (handler e) (only S)) \<Longrightarrow> post (tryCatch p handler) (only S)"
  by (erule post_tryCatch [where P' = "\<lambda>e. only S"]) (auto simp: only_def)

lemmas step_defs =
  initBody_def createProjectStructure_def createConfigFiles_def setupShadcn_def
  setupHusky_def setupPrisma_def

lemmas post_intros =
  post_seq_Cons post_seq_Nil post_if post_say post_throw post_act post_perform

lemma initBody_reads:
  "post (initBody w name) (only {a. \<forall>p. a = ReadJSON p \<longrightarrow> p = ''package.json''})"
  unfolding step_defs
  by (intro post_intros only_tryCatch sequential_only) (auto simp: only_def)

lemma init_reads:
  assumes "Did (ReadJSON p) \<in> set (fst (init w))"
  shows "p = ''package.json''"
proof -
  have "ReadJSON p \<in> touched (fst (init w))"
    using assms by (simp add: touched_def)
  then show ?thesis
  proof (cases w rule: init_cases)
    case (completed name es)
    with postD [OF initBody_reads completed(3)] \<open>ReadJSON p \<in> touched (fst (init w))\<close>
    show ?thesis by (auto simp: only_def)
  next
    case (aborted name e es)
    with postD [OF initBody_reads aborted(3)] \<open>ReadJSON p \<in> touched (fst (init w))\<close>
    show ?thesis by (auto simp: only_def)
  qed simp_all
qed

lemma sequential_runs: "sequential (runs [])"
  by (simp add: sequential_def runs_def)

lemma rethrows: "post (seq [say x, throw e]) throws"
  by (simp add: post_def throws_def andThen_def say_def throw_def seq.simps)

lemma wins_seq:
  "list_all2 (\<lambda>X p. post p (wins X)) Xs ps \<Longrightarrow> post (seq ps) (wins (concat Xs))"
proof (induction Xs ps rule: list_all2_induct)
  case Nil
  show ?case by (simp add: post_def wins_def seq.simps)
next
  case (Cons X Xs p ps)
  from Cons.hyps(1) Cons.IH have "post (andThen p (seq ps)) (wins (X @ concat Xs))"
    by (rule post_andThen) (auto simp: wins_def)
  then show ?case by (simp add: seq.simps)
qed

lemma runs_wins: "post p (runs X) \<Longrightarrow> post p (wins X)"
  by (erule post_weaken) (simp add: runs_def wins_def)

lemma runs_andThen:
  "post p (runs X) \<Longrightarrow> post q (runs []) \<Longrightarrow> post (andThen p q) (runs X)"
  by (rule post_andThen [where P = "runs X" and P' = "runs []"]) (auto simp: runs_def)

lemma runs_catch:
  "post p (runs X) \<Longrightarrow> (\<And>e. post (handler e) (runs [])) \<Longrightarrow> post (tryCatch p handler) (runs X)"
  by (rule post_tryCatch [where P = "runs X" and P' = "\<lambda>e. runs []"]) (auto simp: runs_def)

lemma wins_rethrow:
  "post p (wins X) \<Longrightarrow> post (tryCatch p (\<lambda>error. seq [say x, throw error])) (wins X)"
  by (rule post_tryCatch [where P = "wins X" and P' = "\<lambda>e. throws"])
    (auto simp: wins_def throws_def rethrows)

lemma perform_wins: "post (perform w (map Exec cs)) (wins cs)"
proof -
  have "post (seq (map (act w) (map Exec cs))) (wins (concat (map (\<lambda>c. [c]) cs)))"
    by (rule wins_seq) (simp add: list_all2_conv_all_nth post_def act_def wins_def)
  moreover have "concat (map (\<lambda>c. [c]) cs) = cs" by (induction cs) auto
  ultimately show ?thesis by (simp add: perform_def)
qed

lemma perform_quiet: "\<forall>c. Exec c \<notin> set as \<Longrightarrow> post (perform w as) (runs [])"
proof (rule post_perform [OF sequential_runs])
  fix a
  assume "\<forall>c. Exec c \<notin> set as" and "a \<in> set as"
  then show "runs [] None [Did a] \<and> runs [] (Some (ActionFailed a)) [Failed a]"
    by (cases a) (auto simp: runs_def)
qed

lemma wins_say: "post (say x) (wins [])"
  by (simp add: post_def say_def wins_def)

lemma runs_say: "post (say x) (runs [])"
  by (simp add: post_def say_def runs_def)

lemma runs_exec: "post (act w (Exec c)) (runs [c])"
  by (simp add: post_def act_def runs_def)

lemma createProjectStructure_quiet: "post (createProjectStructure w) (runs [])"
  unfolding createProjectStructure_def by (rule perform_quiet) auto

lemma createConfigFiles_quiet: "post (createConfigFiles w) (runs [])"
  unfolding createConfigFiles_def by (rule perform_quiet) auto

lemma setupHusky_quiet: "post (setupHusky w) (runs [])"
  unfolding setupHusky_def by (rule perform_quiet) auto

lemma setupPrisma_quiet: "post (setupPrisma w) (runs [])"
  unfolding setupPrisma_def by (rule perform_quiet) auto

lemma setupShadcn_wins: "post (setupShadcn w) (wins [shadcnAdd])"
proof -
  have 1: "post (act w (WriteJSON ''components.json'')) (wins [])"
    by (simp add: post_def act_def wins_def)
  have 2: "post (tryCatch (act w (Exec shadcnAdd)) (\<lambda>error. say ShadcnManual)) (wins [shadcnAdd])"
    by (intro runs_wins runs_catch runs_exec runs_say)
  have "post (setupShadcn w) (wins (concat [[], [shadcnAdd]]))"
    unfolding setupShadcn_def by (rule wins_seq) (simp add: 1 2)
  then show ?thesis by simp
qed

lemma best_effort_runs:
  assumes "post q (runs [])" and "\<And>e. post (handler e) (runs [])"
  shows "post (tryCatch (seq [act w (Exec c), q, say x]) handler) (runs [c])"
proof (rule runs_catch)
  have "post (seq [q, say x]) (runs [])"
    by (intro post_seq_Cons post_seq_Nil sequential_runs assms(1) runs_say)
  with runs_exec have "post (andThen (act w (Exec c)) (seq [q, say x])) (runs [c])"
    by (rule runs_andThen)
  then show "post (seq [act w (Exec c), q, say x]) (runs [c])" by (simp add: seq.simps)
qed (rule assms(2))

lemma initBody_wins:
  "post (initBody w name)
     (wins (createNextApp name # installCommands @ [shadcnAdd, huskyInit, prismaInit]))"
proof -
  have create: "post (tryCatch
          (seq [act w (Exec (createNextApp name)),
                say (SpinnerSucceed ''Next.js app berhasil dibuat'')])
          (\<lambda>error. seq [say (SpinnerFail ''Gagal membuat Next.js app''), throw error]))
        (wins [createNextApp name])"
    using wins_seq [of "[[createNextApp name], []]"
        "[act w (Exec (createNextApp name)), say (SpinnerSucceed ''Next.js app berhasil dibuat'')]"]
    by (intro wins_rethrow) (simp add: wins_say runs_wins runs_exec)
  have install: "post (tryCatch
          (seq [perform w (map Exec installCommands),
                say (SpinnerSucceed ''Dependencies berhasil diinstall'')])
          (\<lambda>error. seq [say (SpinnerFail ''Gagal menginstall dependencies''), throw error]))
        (wins installCommands)"
    using wins_seq [of "[installCommands, []]"
        "[perform w (map Exec installCommands),
          say (SpinnerSucceed ''Dependencies berhasil diinstall'')]"]
    by (intro wins_rethrow) (simp add: wins_say perform_wins)
  have husky: "post (tryCatch
          (seq [act w (Exec huskyInit), setupHusky w,
                say (SpinnerSucceed ''Husky berhasil di-setup'')])
          (\<lambda>error. say (SpinnerWarn ''Husky setup warning (silahkan setup manual jika diperlukan)'')))
        (wins [huskyInit])"
    by (intro runs_wins best_effort_runs setupHusky_quiet runs_say)
  have prisma: "post (tryCatch
          (seq [act w (Exec prismaInit), setupPrisma w,
                say (SpinnerSucceed ''Prisma berhasil diinisialisasi'')])
          (\<lambda>error. seq [say (SpinnerWarn ''Prisma init warning (akan di-setup manual)''),
                         setupPrisma w]))
        (wins [prismaInit])"
    by (intro runs_wins best_effort_runs setupPrisma_quiet post_seq_Cons post_seq_Nil
          sequential_runs runs_say)
  have check: "post (if \<not> exists_after w then throw (FolderNotFound name) else seq []) (wins [])"
    by (simp add: post_def throw_def wins_def seq.simps)
  have chdir: "post (act w Chdir) (wins [])"
    by (simp add: post_def act_def wins_def)
  have "post (initBody w name)
     (wins (concat [[], [], [createNextApp name], [], [], [], installCommands, [], [], [],
        [], [], [], [], [], [shadcnAdd], [], [], [huskyInit], [], [prismaInit], []]))"
    unfolding initBody_def
    by (rule wins_seq)
      (simp add: wins_say create install husky prisma check chdir runs_wins
         createProjectStructure_quiet createConfigFiles_quiet setupShadcn_wins)
  then show ?thesis by simp
qed

lemma only_mono: "post p (only S) \<Longrightarrow> S \<subseteq> T \<Longrightarrow> post p (only T)"
  by (erule post_weaken) (auto simp: only_def)

lemma untouched_strict: "post p (only S) \<Longrightarrow> a \<notin> S \<Longrightarrow> post p (strict a)"
  by (erule post_weaken) (auto simp: only_def strict_def touched_def)

lemma untouched_warns: "post p (only S) \<Longrightarrow> a \<notin> S \<Longrightarrow> post p (warns a x)"
  by (erule post_weaken) (auto simp: only_def warns_def touched_def)

lemma only_say: "post (say x) (only S)"
  by (simp add: post_def say_def only_def)

lemma only_perform: "set as \<subseteq> S \<Longrightarrow> post (perform w as) (only S)"
  by (rule post_perform [OF sequential_only]) (auto simp: only_def)

lemma only_rethrow:
  "post p (only S) \<Longrightarrow> post (tryCatch p (\<lambda>error. seq [say x, throw error])) (only S)"
  by (intro only_tryCatch post_intros sequential_only) (simp_all add: only_def)

lemma only_create:
  "post (tryCatch (seq [act w (Exec c), say x]) (\<lambda>error. seq [say y, throw error]))
     (only {Exec c})"
  by (intro only_rethrow post_intros sequential_only) (simp_all add: only_def)

lemma only_install:
  "post (tryCatch (seq [perform w (map Exec cs), say x]) (\<lambda>error. seq [say y, throw error]))
     (only (Exec ` set cs))"
  by (intro only_rethrow post_intros sequential_only) (auto simp: only_def)

lemma only_structure: "post (createProjectStructure w) (only file_ops)"
  unfolding createProjectStructure_def by (rule only_perform) (auto simp: file_ops_def)

lemma only_config: "post (createConfigFiles w) (only file_ops)"
  unfolding createConfigFiles_def by (rule only_perform) (auto simp: file_ops_def)

lemma only_setupHusky: "post (setupHusky w) (only file_ops)"
  unfolding setupHusky_def by (rule only_perform) (auto simp: file_ops_def)

lemma only_setupPrisma: "post (setupPrisma w) (only file_ops)"
  unfolding setupPrisma_def by (rule only_perform) (auto simp: file_ops_def)

lemma only_shadcn: "post (setupShadcn w) (only (insert (Exec shadcnAdd) file_ops))"
  unfolding setupShadcn_def
  by (intro only_tryCatch post_intros sequential_only) (simp_all add: only_def file_ops_def)

lemma only_best_effort:
  assumes "post q (only file_ops)" and "\<And>e. post (handler e) (only file_ops)"
  shows "post (tryCatch (seq [act w (Exec c), q, say x]) handler) (only (insert (Exec c) file_ops))"
proof (intro only_tryCatch post_seq_Cons post_seq_Nil sequential_only)
  show "post (act w (Exec c)) (only (insert (Exec c) file_ops))"
    by (simp add: post_def act_def only_def)
  show "post q (only (insert (Exec c) file_ops))"
    using assms(1) by (rule only_mono) auto
  show "post (say x) (only (insert (Exec c) file_ops))"
    by (rule only_say)
  show "post (handler e) (only (insert (Exec c) file_ops))" for e
    using assms(2) by (rule only_mono) auto
qed

lemma only_husky:
  "post (tryCatch (seq [act w (Exec huskyInit), setupHusky w, say x]) (\<lambda>error. say y))
     (only (insert (Exec huskyInit) file_ops))"
  by (intro only_best_effort only_setupHusky only_say)

lemma only_prisma:
  "post (tryCatch (seq [act w (Exec prismaInit), setupPrisma w, say x])
          (\<lambda>error. seq [say y, setupPrisma w]))
     (only (insert (Exec prismaInit) file_ops))"
  by (intro only_best_effort only_setupPrisma post_seq_Cons post_seq_Nil sequential_only only_say)

lemma only_check: "post (if c then throw e else seq []) (only S)"
  by (simp add: post_def throw_def only_def seq.simps)

lemma only_chdir: "post (act w Chdir) (only file_ops)"
  by (simp add: post_def act_def only_def file_ops_def)

lemma commands_distinct:
  "createNextApp name \<noteq> shadcnAdd" "createNextApp name \<noteq> huskyInit"
  "createNextApp name \<noteq> prismaInit" "createNextApp name \<notin> set installCommands"
  "shadcnAdd \<notin> set installCommands" "huskyInit \<notin> set installCommands"
  "prismaInit \<notin> set installCommands"
  "shadcnAdd \<noteq> huskyInit" "shadcnAdd \<noteq> prismaInit" "huskyInit \<noteq> prismaInit"
  by (simp_all add: createNextApp_def shadcnAdd_def huskyInit_def prismaInit_def
        installCommands_def)

lemma strict_say: "post (say x) (strict a)"
  by (simp add: post_def say_def strict_def)

lemma strict_act: "post (act w b) (strict a)"
  by (simp add: post_def act_def strict_def)

lemma strict_perform: "post (perform w as) (strict a)"
  by (rule post_perform [OF sequential_strict]) (simp add: strict_def)

lemma rethrows_same: "post (seq [say x, throw e]) (\<lambda>r es. r = Some e \<and> es = [Out x])"
  by (simp add: post_def andThen_def say_def throw_def seq.simps)

lemma strict_rethrow:
  "post p (strict a) \<Longrightarrow> post (tryCatch p (\<lambda>error. seq [say x, throw error])) (strict a)"
  by (rule post_tryCatch [where P = "strict a" and P' = "\<lambda>e r es. r = Some e \<and> es = [Out x]"])
    (auto simp: strict_def rethrows_same)

lemma strict_check: "post (if c then throw e else seq []) (strict a)"
  by (simp add: post_def throw_def strict_def seq.simps)

lemma initBody_strict:
  assumes "c = createNextApp name \<or> c \<in> set installCommands"
  shows "post (initBody w name) (strict (Exec c))"
proof -
  have neq: "c \<noteq> shadcnAdd" "c \<noteq> huskyInit" "c \<noteq> prismaInit"
    using assms commands_distinct(1-7) by metis+
  have create: "post (tryCatch (seq [act w (Exec (createNextApp name)), say x])
      (\<lambda>error. seq [say y, throw error])) (strict (Exec c))" for x y
    by (intro strict_rethrow post_seq_Cons post_seq_Nil sequential_strict strict_act strict_say)
  have install: "post (tryCatch (seq [perform w (map Exec installCommands), say x])
      (\<lambda>error. seq [say y, throw error])) (strict (Exec c))" for x y
    by (intro strict_rethrow post_seq_Cons post_seq_Nil sequential_strict strict_perform
          strict_say)
  have shadcn: "post (setupShadcn w) (strict (Exec c))"
    using only_shadcn by (rule untouched_strict) (simp add: neq file_ops_def)
  have husky: "post (tryCatch (seq [act w (Exec huskyInit), setupHusky w, say x])
      (\<lambda>error. say y)) (strict (Exec c))" for x y
    using only_husky by (rule untouched_strict) (simp add: neq file_ops_def)
  have prisma: "post (tryCatch (seq [act w (Exec prismaInit), setupPrisma w, say x])
      (\<lambda>error. seq [say y, setupPrisma w])) (strict (Exec c))" for x y
    using only_prisma by (rule untouched_strict) (simp add: neq file_ops_def)
  show ?thesis
    unfolding initBody_def
    by (rule post_seq [OF sequential_strict])
      (simp add: strict_say strict_act strict_check create install shadcn husky prisma
         createProjectStructure_def createConfigFiles_def strict_perform)
qed

lemma blames_say: "post (say x) (blames B)"
  by (simp add: post_def say_def blames_def)

lemma blames_act: "a \<notin> B \<Longrightarrow> post (act w a) (blames B)"
  by (auto simp: post_def act_def blames_def)

lemma blames_perform: "set as \<inter> B = {} \<Longrightarrow> post (perform w as) (blames B)"
  by (rule post_perform [OF sequential_blames]) (auto simp: blames_def)

lemma blames_rethrow:
  "post p (blames B) \<Longrightarrow> post (tryCatch p (\<lambda>error. seq [say x, throw error])) (blames B)"
  by (rule post_tryCatch [where P = "blames B" and P' = "\<lambda>e r es. True"])
    (auto simp: blames_def post_def)

lemma blames_handler:
  "(\<And>e. post (handler e) (blames B)) \<Longrightarrow> post (tryCatch p handler) (blames B)"
  by (rule post_tryCatch [where P = "\<lambda>r es. True" and P' = "\<lambda>e. blames B"])
    (auto simp: blames_def post_def)

lemma initBody_blames:
  assumes "exists_after w"
  shows "post (initBody w name) (blames {Exec shadcnAdd, Exec huskyInit, Exec prismaInit})"
    (is "post _ (blames ?B)")
proof -
  have create: "post (tryCatch (seq [act w (Exec (createNextApp name)), say x])
      (\<lambda>error. seq [say y, throw error])) (blames ?B)" for x y
    by (intro blames_rethrow post_seq_Cons post_seq_Nil sequential_blames blames_act blames_say)
      (simp add: commands_distinct)
  have install: "post (tryCatch (seq [perform w (map Exec installCommands), say x])
      (\<lambda>error. seq [say y, throw error])) (blames ?B)" for x y
    by (intro blames_rethrow post_seq_Cons post_seq_Nil sequential_blames blames_perform
          blames_say) (use commands_distinct in auto)
  have check: "post (if \<not> exists_after w then throw (FolderNotFound name) else seq [])
      (blames ?B)"
    using assms by (simp add: post_def blames_def seq.simps)
  have chdir: "post (act w Chdir) (blames ?B)"
    by (rule blames_act) simp
  have struct: "post (createProjectStructure w) (blames ?B)"
    unfolding createProjectStructure_def by (rule blames_perform) auto
  have config: "post (createConfigFiles w) (blames ?B)"
    unfolding createConfigFiles_def by (rule blames_perform) auto
  have shadcn: "post (setupShadcn w) (blames ?B)"
    unfolding setupShadcn_def
    by (intro post_seq_Cons post_seq_Nil sequential_blames blames_act blames_handler blames_say)
      simp
  have husky: "post (tryCatch (seq [act w (Exec huskyInit), setupHusky w, say x])
      (\<lambda>error. say y)) (blames ?B)" for x y
    by (intro blames_handler blames_say)
  have again: "post (setupPrisma w) (blames ?B)"
    unfolding setupPrisma_def by (rule blames_perform) auto
  have prisma: "post (tryCatch (seq [act w (Exec prismaInit), setupPrisma w, say x])
      (\<lambda>error. seq [say y, setupPrisma w])) (blames ?B)" for x y
    by (intro blames_handler post_seq_Cons post_seq_Nil sequential_blames blames_say again)
  show ?thesis
    unfolding initBody_def
    by (rule post_seq [OF sequential_blames])
      (simp add: blames_say create install check chdir struct config shadcn husky prisma)
qed

lemma warns_say: "post (say y) (warns a x)"
  by (simp add: post_def say_def warns_def)

lemma warns_catch:
  "post p (strict a) \<Longrightarrow> (\<And>e. post (handler e) (\<lambda>r es. Out x \<in> set es)) \<Longrightarrow>
   post (tryCatch p handler) (warns a x)"
  by (rule post_tryCatch [where P = "strict a" and P' = "\<lambda>e r es. Out x \<in> set es"])
    (auto simp: strict_def warns_def)

lemma says_first: "post (seq (say x # ps)) (\<lambda>r es. Out x \<in> set es)"
  by (simp add: post_def seq.simps andThen_def say_def split: prod.splits option.splits)

lemma says: "post (say x) (\<lambda>r es. Out x \<in> set es)"
  by (simp add: post_def say_def)

lemma initBody_warns:
  assumes "(c, x) \<in> {(shadcnAdd, ShadcnManual),
      (huskyInit, SpinnerWarn ''Husky setup warning (silahkan setup manual jika diperlukan)''),
      (prismaInit, SpinnerWarn ''Prisma init warning (akan di-setup manual)'')}"
  shows "post (initBody w name) (warns (Exec c) x)"
proof -
  have c: "c = shadcnAdd \<or> c = huskyInit \<or> c = prismaInit"
    using assms by auto
  then have neq: "c \<noteq> createNextApp name" "c \<notin> set installCommands"
    using commands_distinct(1-7) by metis+
  have create: "post (tryCatch (seq [act w (Exec (createNextApp name)), say y])
      (\<lambda>error. seq [say z, throw error])) (warns (Exec c) x)" for y z
    using only_create by (rule untouched_warns) (simp add: neq)
  have install: "post (tryCatch (seq [perform w (map Exec installCommands), say y])
      (\<lambda>error. seq [say z, throw error])) (warns (Exec c) x)" for y z
    using only_install by (rule untouched_warns) (use neq in auto)
  have check: "post (if b then throw e else seq []) (warns (Exec c) x)" for b e
    using only_check [of b e "{}"] by (rule untouched_warns) simp
  have chdir: "post (act w Chdir) (warns (Exec c) x)"
    using only_chdir by (rule untouched_warns) (simp add: file_ops_def)
  have struct: "post (createProjectStructure w) (warns (Exec c) x)"
    using only_structure by (rule untouched_warns) (simp add: file_ops_def)
  have config: "post (createConfigFiles w) (warns (Exec c) x)"
    using only_config by (rule untouched_warns) (simp add: file_ops_def)
  have shadcn: "post (setupShadcn w) (warns (Exec c) x)"
  proof (cases "c = shadcnAdd")
    case True
    with assms commands_distinct(8,9) have x: "x = ShadcnManual" by auto
    show ?thesis
      unfolding setupShadcn_def True x
      by (intro post_seq_Cons post_seq_Nil sequential_warns warns_catch strict_act says)
        (simp add: post_def act_def warns_def)
  next
    case False
    show ?thesis using only_shadcn by (rule untouched_warns) (simp add: file_ops_def False)
  qed
  have husky: "post (tryCatch (seq [act w (Exec huskyInit), setupHusky w,
        say (SpinnerSucceed ''Husky berhasil di-setup'')])
      (\<lambda>error. say (SpinnerWarn ''Husky setup warning (silahkan setup manual jika diperlukan)'')))
      (warns (Exec c) x)"
  proof (cases "c = huskyInit")
    case True
    with assms commands_distinct(8,10)
    have x: "x = SpinnerWarn ''Husky setup warning (silahkan setup manual jika diperlukan)''"
      by auto
    show ?thesis
      unfolding True x setupHusky_def
      by (intro warns_catch says post_seq_Cons post_seq_Nil sequential_strict strict_act
            strict_perform strict_say)
  next
    case False
    show ?thesis using only_husky by (rule untouched_warns) (simp add: file_ops_def False)
  qed
  have prisma: "post (tryCatch (seq [act w (Exec prismaInit), setupPrisma w,
        say (SpinnerSucceed ''Prisma berhasil diinisialisasi'')])
      (\<lambda>error. seq [say (SpinnerWarn ''Prisma init warning (akan di-setup manual)''),
                     setupPrisma w]))
      (warns (Exec c) x)"
  proof (cases "c = prismaInit")
    case True
    with assms commands_distinct(9,10)
    have x: "x = SpinnerWarn ''Prisma init warning (akan di-setup manual)''"
      by auto
    show ?thesis
      unfolding True x
      by (intro warns_catch says_first post_seq_Cons post_seq_Nil sequential_strict strict_act
            strict_say) (simp add: setupPrisma_def strict_perform)
  next
    case False
    show ?thesis using only_prisma by (rule untouched_warns) (simp add: file_ops_def False)
  qed
  show ?thesis
    unfolding initBody_def
    by (rule post_seq [OF sequential_warns])
      (simp add: warns_say create install check chdir struct config shadcn husky prisma)
qed

text \<open>
  Claim C4: in a run of \<^verbatim>\<open>init\<close> whose project name is \<open>name\<close>, if \<^verbatim>\<open>create-next-app\<close>
  or one of the five \<^verbatim>\<open>pnpm add\<close> commands fails, the run exits with status 1 and the last
  thing printed is the error block for that failure. If the target folder is absent
  before and present after \<^verbatim>\<open>create-next-app\<close> and nothing fails except, possibly, the
  commands of shadcn, \<^verbatim>\<open>husky init\<close> and \<^verbatim>\<open>prisma init\<close>, the run completes; and whenever
  one of these three fails, its warning is printed.
\<close>

theorem init_failures:
  assumes "resolveName w = Some name"
  shows "((c = createNextApp name \<or> c \<in> set installCommands) \<and>
          Failed (Exec c) \<in> set (fst (init w)) \<longrightarrow>
            snd (init w) = Exit 1 \<and>
            last (fst (init w)) = Out (ErrorReport (ActionFailed (Exec c)))) \<and>
         (\<not> exists_before w \<and> exists_after w \<and>
          (\<forall>a. Failed a \<in> set (fst (init w)) \<longrightarrow>
                 a \<in> {Exec shadcnAdd, Exec huskyInit, Exec prismaInit}) \<longrightarrow>
            snd (init w) = Completed) \<and>
         (Failed (Exec shadcnAdd) \<in> set (fst (init w)) \<longrightarrow>
            Out ShadcnManual \<in> set (fst (init w))) \<and>
         (Failed (Exec huskyInit) \<in> set (fst (init w)) \<longrightarrow>
            Out (SpinnerWarn ''Husky setup warning (silahkan setup manual jika diperlukan)'')
              \<in> set (fst (init w))) \<and>
         (Failed (Exec prismaInit) \<in> set (fst (init w)) \<longrightarrow>
            Out (SpinnerWarn ''Prisma init warning (akan di-setup manual)'')
              \<in> set (fst (init w)))"
proof (cases w rule: init_cases)
  case waiting
  with assms show ?thesis by simp
next
  case (present n)
  then show ?thesis by simp
next
  case (completed n es)
  with assms have n: "n = name" by simp
  note body = completed(3) [unfolded n]
  have "\<not> Failed (Exec c) \<in> set es" if "c = createNextApp name \<or> c \<in> set installCommands"
    using postD [OF initBody_strict [OF that] body] by (simp add: strict_def)
  moreover have "Failed (Exec shadcnAdd) \<in> set es \<longrightarrow> Out ShadcnManual \<in> set es"
    using postD [OF initBody_warns body, of shadcnAdd ShadcnManual] by (simp add: warns_def)
  moreover have "Failed (Exec huskyInit) \<in> set es \<longrightarrow>
      Out (SpinnerWarn ''Husky setup warning (silahkan setup manual jika diperlukan)'') \<in> set es"
    using postD [OF initBody_warns body, of huskyInit
        "SpinnerWarn ''Husky setup warning (silahkan setup manual jika diperlukan)''"]
    by (simp add: warns_def)
  moreover have "Failed (Exec prismaInit) \<in> set es \<longrightarrow>
      Out (SpinnerWarn ''Prisma init warning (akan di-setup manual)'') \<in> set es"
    using postD [OF initBody_warns body, of prismaInit
        "SpinnerWarn ''Prisma init warning (akan di-setup manual)''"]
    by (simp add: warns_def)
  ultimately show ?thesis using completed(4) by auto
next
  case (aborted n e es)
  with assms have n: "n = name" by simp
  note body = aborted(3) [unfolded n]
  have "e = ActionFailed (Exec c)"
    if "c = createNextApp name \<or> c \<in> set installCommands" "Failed (Exec c) \<in> set es"
    using postD [OF initBody_strict [OF that(1)] body] that(2) by (simp add: strict_def)
  moreover have "\<exists>a. Failed a \<in> set es \<and> a \<notin> {Exec shadcnAdd, Exec huskyInit, Exec prismaInit}"
    if "exists_after w"
    using postD [OF initBody_blames [OF that] body] by (simp add: blames_def)
  moreover have "Failed (Exec shadcnAdd) \<in> set es \<longrightarrow> Out ShadcnManual \<in> set es"
    using postD [OF initBody_warns body, of shadcnAdd ShadcnManual] by (simp add: warns_def)
  moreover have "Failed (Exec huskyInit) \<in> set es \<longrightarrow>
      Out (SpinnerWarn ''Husky setup warning (silahkan setup manual jika diperlukan)'') \<in> set es"
    using postD [OF initBody_warns body, of huskyInit
        "SpinnerWarn ''Husky setup warning (silahkan setup manual jika diperlukan)''"]
    by (simp add: warns_def)
  moreover have "Failed (Exec prismaInit) \<in> set es \<longrightarrow>
      Out (SpinnerWarn ''Prisma init warning (akan di-setup manual)'') \<in> set es"
    using postD [OF initBody_warns body, of prismaInit
        "SpinnerWarn ''Prisma init warning (akan di-setup manual)''"]
    by (simp add: warns_def)
  ultimately show ?thesis using aborted(4) by auto
qed

lemma failures_set: "Failed a \<in> set es \<longleftrightarrow> a \<in> set (failures es)"
  by (induction es rule: failures.induct) auto

text \<open>
  C4 at a world in which \<^verbatim>\<open>pnpm add zustand\<close> fails and at one in which the three
  best-effort commands fail: the first run exits with status 1 after the error block, the
  second completes with the three warnings printed.
\<close>

theorem init_failures_witness:
  "Failed (Exec ''pnpm add zustand'')
     \<in> set (fst (init \<lparr>projectName = Some ''my-app'', typed = [], exists_before = False,
                       exists_after = True, fails = failing [''pnpm add zustand'']\<rparr>)) \<and>
   snd (init \<lparr>projectName = Some ''my-app'', typed = [], exists_before = False,
              exists_after = True, fails = failing [''pnpm add zustand'']\<rparr>) = Exit 1 \<and>
   last (fst (init \<lparr>projectName = Some ''my-app'', typed = [], exists_before = False,
              exists_after = True, fails = failing [''pnpm add zustand'']\<rparr>))
     = Out (ErrorReport (ActionFailed (Exec ''pnpm add zustand''))) \<and>
   failures (fst (init \<lparr>projectName = Some ''my-app'', typed = [], exists_before = False,
                       exists_after = True,
                       fails = failing [shadcnAdd, huskyInit, prismaInit]\<rparr>))
     = [Exec shadcnAdd, Exec huskyInit, Exec prismaInit] \<and>
   snd (init \<lparr>projectName = Some ''my-app'', typed = [], exists_before = False,
              exists_after = True,
              fails = failing [shadcnAdd, huskyInit, prismaInit]\<rparr>) = Completed \<and>
   {Out ShadcnManual,
    Out (SpinnerWarn ''Husky setup warning (silahkan setup manual jika diperlukan)''),
    Out (SpinnerWarn ''Prisma init warning (akan di-setup manual)'')}
     \<subseteq> set (fst (init \<lparr>projectName = Some ''my-app'', typed = [], exists_before = False,
                       exists_after = True,
                       fails = failing [shadcnAdd, huskyInit, prismaInit]\<rparr>))"
proof -
  let ?w = "\<lparr>projectName = Some ''my-app'', typed = [], exists_before = False,
             exists_after = True, fails = failing [''pnpm add zustand'']\<rparr>"
  let ?v = "\<lparr>projectName = Some ''my-app'', typed = [], exists_before = False,
             exists_after = True, fails = failing [shadcnAdd, huskyInit, prismaInit]\<rparr>"
  have name: "resolveName ?w = Some ''my-app''" "resolveName ?v = Some ''my-app''"
    by (simp_all add: resolveName_def)
  have required: "''pnpm add zustand'' \<in> set installCommands"
    by (simp add: installCommands_def stateDependencies_def)
  have failed: "Failed (Exec ''pnpm add zustand'') \<in> set (fst (init ?w))"
    by code_simp
  have three: "failures (fst (init ?v)) = [Exec shadcnAdd, Exec huskyInit, Exec prismaInit]"
    by code_simp
  then have best: "\<forall>a. Failed a \<in> set (fst (init ?v)) \<longrightarrow>
      a \<in> {Exec shadcnAdd, Exec huskyInit, Exec prismaInit}"
    and each: "Failed (Exec shadcnAdd) \<in> set (fst (init ?v))"
      "Failed (Exec huskyInit) \<in> set (fst (init ?v))"
      "Failed (Exec prismaInit) \<in> set (fst (init ?v))"
    by (simp_all add: failures_set)
  from init_failures [OF name(1), of "''pnpm add zustand''"] required failed
    init_failures [OF name(2), of "''pnpm add zustand''"] best each three
  show ?thesis by simp
qed

text \<open>
  Claim C6: in a run of \<^verbatim>\<open>init\<close> that completes, the external commands invoked are, in
  this order, \<^verbatim>\<open>create-next-app\<close> for the project name, the five \<^verbatim>\<open>pnpm add\<close> commands
  (auth, form, state, database, development dependencies), the shadcn command,
  \<^verbatim>\<open>husky init\<close> and \<^verbatim>\<open>prisma init\<close>; the five \<^verbatim>\<open>pnpm add\<close> command lines are the constants
  listed, in which the project name does not occur.
\<close>

theorem init_order:
  assumes "resolveName w = Some name" and "snd (init w) = Completed"
  shows "execs (fst (init w)) =
           createNextApp name # installCommands @ [shadcnAdd, huskyInit, prismaInit] \<and>
         installCommands =
           [''pnpm add next-auth@^4.24.5 bcryptjs jsonwebtoken clsx tailwind-merge'',
            ''pnpm add react-hook-form zod @hookform/resolvers'',
            ''pnpm add zustand'',
            ''pnpm add @prisma/client@^6.7.0'',
            ''pnpm add -D prisma@^6.7.0 @types/bcryptjs @types/jsonwebtoken vitest @vitejs/plugin-react @playwright/test husky lint-staged prettier'']"
proof
  show "execs (fst (init w)) =
      createNextApp name # installCommands @ [shadcnAdd, huskyInit, prismaInit]"
  proof (cases w rule: init_cases)
    case (completed n es)
    with assms(1) postD [OF initBody_wins completed(3)] show ?thesis
      by (simp add: wins_def)
  qed (use assms in simp_all)
  show "installCommands =
      [''pnpm add next-auth@^4.24.5 bcryptjs jsonwebtoken clsx tailwind-merge'',
       ''pnpm add react-hook-form zod @hookform/resolvers'',
       ''pnpm add zustand'',
       ''pnpm add @prisma/client@^6.7.0'',
       ''pnpm add -D prisma@^6.7.0 @types/bcryptjs @types/jsonwebtoken vitest @vitejs/plugin-react @playwright/test husky lint-staged prettier'']"
    by (simp add: installCommands_def authDependencies_def formDependencies_def
          stateDependencies_def databaseDependencies_def devDependencies_def)
qed

text \<open>C6 at a run whose name comes from the prompt and in which \<^verbatim>\<open>husky init\<close> fails.\<close>

theorem init_order_witness:
  "snd (init \<lparr>projectName = None, typed = ['''', ''My App'', ''my-app''],
              exists_before = False, exists_after = True, fails = failing [huskyInit]\<rparr>)
     = Completed \<and>
   execs (fst (init \<lparr>projectName = None, typed = ['''', ''My App'', ''my-app''],
              exists_before = False, exists_after = True, fails = failing [huskyInit]\<rparr>))
     = createNextApp ''my-app'' # installCommands @ [shadcnAdd, huskyInit, prismaInit]"
proof -
  let ?w = "\<lparr>projectName = None, typed = ['''', ''My App'', ''my-app''],
              exists_before = False, exists_after = True, fails = failing [huskyInit]\<rparr>"
  have name: "resolveName ?w = Some ''my-app''"
    by code_simp
  have fin: "snd (init ?w) = Completed"
    by code_simp
  from init_order [OF name fin] fin show ?thesis by simp
qed

text \<open>
  Claim C5, as stated, fails: in the run where nothing fails, event 49 is the write of
  \<^verbatim>\<open>package.json\<close> by \<^verbatim>\<open>createConfigFiles\<close> and event 59 is the read of the same file by
  \<^verbatim>\<open>setupHusky\<close>.
\<close>

theorem package_json_read_back_counterexample:
  "fst (init \<lparr>projectName = Some ''my-app'', typed = [], exists_before = False,
              exists_after = True, fails = reliable\<rparr>) ! 49
     = Did (WriteJSON ''package.json'') \<and>
   fst (init \<lparr>projectName = Some ''my-app'', typed = [], exists_before = False,
              exists_after = True, fails = reliable\<rparr>) ! 59
     = Did (ReadJSON ''package.json'') \<and>
   snd (init \<lparr>projectName = Some ''my-app'', typed = [], exists_before = False,
              exists_after = True, fails = reliable\<rparr>) = Completed"
  by code_simp

text \<open>
  Claim C5, amended: a file that a run of \<^verbatim>\<open>init\<close> has written and later reads back is
  \<^verbatim>\<open>package.json\<close>; no other written file is read in the same run.
\<close>

theorem only_package_json_read_back:
  assumes "i < j" and "j < length (fst (init w))"
    and "fst (init w) ! i = Did (WriteFile p) \<or> fst (init w) ! i = Did (WriteJSON p)"
    and "fst (init w) ! j = Did (ReadJSON p)"
  shows "p = ''package.json''"
proof -
  from assms(2,4) have "Did (ReadJSON p) \<in> set (fst (init w))"
    by (metis nth_mem)
  then show ?thesis by (rule init_reads)
qed

text \<open>C5, amended, at the write and the read of \<^verbatim>\<open>package.json\<close>.\<close>

theorem only_package_json_read_back_witness:
  "(49::nat) < 59 \<and>
   59 < length (fst (init \<lparr>projectName = Some ''my-app'', typed = [], exists_before = False,
              exists_after = True, fails = failing [prismaInit]\<rparr>)) \<and>
   fst (init \<lparr>projectName = Some ''my-app'', typed = [], exists_before = False,
              exists_after = True, fails = failing [prismaInit]\<rparr>) ! 49
     = Did (WriteJSON ''package.json'') \<and>
   fst (init \<lparr>projectName = Some ''my-app'', typed = [], exists_before = False,
              exists_after = True, fails = failing [prismaInit]\<rparr>) ! 59
     = Did (ReadJSON ''package.json'')"
proof -
  let ?w = "\<lparr>projectName = Some ''my-app'', typed = [], exists_before = False,
              exists_after = True, fails = failing [prismaInit]\<rparr>"
  have 1: "(49::nat) < 59" by simp
  have 2: "59 < length (fst (init ?w))" by code_simp
  have 3: "fst (init ?w) ! 49 = Did (WriteFile ''package.json'') \<or>
           fst (init ?w) ! 49 = Did (WriteJSON ''package.json'')" by code_simp
  have 4: "fst (init ?w) ! 59 = Did (ReadJSON ''package.json'')" by code_simp
  have 5: "fst (init ?w) ! 49 = Did (WriteJSON ''package.json'')" by code_simp
  from only_package_json_read_back [OF 1 2 3 4] 2 4 5 show ?thesis by simp
qed

text \<open>
  Claim C7: the program declares one command, \<^verbatim>\<open>init\<close>, with one argument, which is
  optional; the prompt's \<^verbatim>\<open>validate\<close> accepts an input exactly when it is non-empty and
  matches the kebab-case expression; without the argument the name is the first typed
  line that is accepted, and a non-empty argument is the name.
\<close>

theorem init_command_line:
  "map cmd_name program = [''init''] \<and>
   map cmd_arguments program = [[''[project-name]'']] \<and>
   optional_argument ''[project-name]'' \<and>
   (validate input = Accepted \<longleftrightarrow> input \<noteq> [] \<and> kebabCase input) \<and>
   (projectName w = None \<longrightarrow>
      resolveName w = find (\<lambda>line. line \<noteq> [] \<and> kebabCase line) (typed w)) \<and>
   (projectName w = Some n \<and> n \<noteq> [] \<longrightarrow> resolveName w = Some n)"
proof -
  have v: "validate line = Accepted \<longleftrightarrow> line \<noteq> [] \<and> kebabCase line" for line
    by (simp add: validate_def)
  show ?thesis
    by (simp add: program_def optional_argument_def startsWith_def endsWith_def v
          resolveName_def prompt_def)
qed

text \<open>
  C7 at a prompt where the third line typed is the first accepted one, and at an argument,
  which is taken as it is.
\<close>

theorem init_command_line_witness:
  "projectName \<lparr>projectName = None, typed = ['''', ''My App'', ''my-app'', ''other''],
      exists_before = False, exists_after = True, fails = reliable\<rparr> = None \<and>
   resolveName \<lparr>projectName = None, typed = ['''', ''My App'', ''my-app'', ''other''],
      exists_before = False, exists_after = True, fails = reliable\<rparr> = Some ''my-app'' \<and>
   resolveName \<lparr>projectName = Some ''My App'', typed = [],
      exists_before = False, exists_after = True, fails = reliable\<rparr> = Some ''My App'' \<and>
   validate ''My App'' \<noteq> Accepted \<and> validate ''my-app'' = Accepted"
  using init_command_line [of "''My App''"
      "\<lparr>projectName = None, typed = ['''', ''My App'', ''my-app'', ''other''],
        exists_before = False, exists_after = True, fails = reliable\<rparr>"]
    init_command_line [of "''my-app''"
      "\<lparr>projectName = Some ''My App'', typed = [],
        exists_before = False, exists_after = True, fails = reliable\<rparr>" "''My App''"]
  by (simp add: kebabCase_def isLower_def isDigit_def)

text \<open>
  Claim C9: when the target folder exists, the run prints the red line and exits with
  status 1; no external command is invoked and no operation on the file system is made
  or attempted.
\<close>

theorem init_existing_folder:
  assumes "resolveName w = Some name" and "exists_before w"
  shows "init w = ([Out (FolderExists name)], Exit 1) \<and>
         execs (fst (init w)) = [] \<and>
         (\<forall>a. Did a \<notin> set (fst (init w)) \<and> Failed a \<notin> set (fst (init w)))"
  using assms by (auto simp: init_def)

text \<open>C9 at a run whose target folder exists.\<close>

theorem init_existing_folder_witness:
  "resolveName \<lparr>projectName = Some ''my-app'', typed = [], exists_before = True,
      exists_after = True, fails = reliable\<rparr> = Some ''my-app'' \<and>
   init \<lparr>projectName = Some ''my-app'', typed = [], exists_before = True,
      exists_after = True, fails = reliable\<rparr> = ([Out (FolderExists ''my-app'')], Exit 1)"
proof -
  let ?w = "\<lparr>projectName = Some ''my-app'', typed = [], exists_before = True,
      exists_after = True, fails = reliable\<rparr>"
  have 1: "resolveName ?w = Some ''my-app''" by (simp add: resolveName_def)
  have 2: "exists_before ?w" by simp
  from init_existing_folder [OF 1 2] 1 show ?thesis by simp
qed

end
